theory Spec2Isabelle
  imports Main "HOL-Library.Word"
begin

section \<open>Strings as the orchestrator's parser reads them\<close>

text \<open>
  JavaScript strings are modelled as \<open>string\<close> (a list of 8-bit characters); the model
  covers ASCII text. \<open>is_space\<close> is the ASCII part of the class \<open>\s\<close> (also what
  \<open>String.prototype.trim\<close> removes): TAB, LF, VT, FF, CR and SPACE. \<open>is_word\<close> is the class
  \<open>\w\<close>: letters, digits and the underscore.
\<close>

definition is_space :: "char \<Rightarrow> bool" where
  "is_space c = (c = CHR 0x09 \<or> c = CHR 0x0A \<or> c = CHR 0x0B \<or> c = CHR 0x0C
     \<or> c = CHR 0x0D \<or> c = CHR 0x20)"

definition is_word :: "char \<Rightarrow> bool" where
  "is_word c = (let n = (of_char c :: nat) in
     (48 \<le> n \<and> n \<le> 57) \<or> (65 \<le> n \<and> n \<le> 90) \<or> (97 \<le> n \<and> n \<le> 122) \<or> n = 95)"

definition upper_char :: "char \<Rightarrow> char" where
  "upper_char c = (let n = (of_char c :: nat) in
     if 97 \<le> n \<and> n \<le> 122 then char_of (n - 32) else c)"

definition lower_char :: "char \<Rightarrow> char" where
  "lower_char c = (let n = (of_char c :: nat) in
     if 65 \<le> n \<and> n \<le> 90 then char_of (n + 32) else c)"

definition toUpperCase :: "string \<Rightarrow> string" where
  "toUpperCase s = map upper_char s"

definition toLowerCase :: "string \<Rightarrow> string" where
  "toLowerCase s = map lower_char s"

definition trim :: "string \<Rightarrow> string" where
  "trim s = rev (dropWhile is_space (rev (dropWhile is_space s)))"

definition startsWith :: "string \<Rightarrow> string \<Rightarrow> bool" where
  \<comment> \<open>\<open>s.startsWith(p)\<close>\<close>
  "startsWith p s = (take (length p) s = p)"

definition startsWithCI :: "string \<Rightarrow> string \<Rightarrow> bool" where
  \<comment> \<open>a literal \<open>p\<close> (given in upper case) matched at the start of \<open>s\<close> under the flag \<open>i\<close>\<close>
  "startsWithCI p s = (toUpperCase (take (length p) s) = p)"

fun includes_str :: "string \<Rightarrow> string \<Rightarrow> bool" where
  \<comment> \<open>\<open>s.includes(p)\<close>\<close>
  "includes_str p [] = (p = [])"
| "includes_str p (c # cs) = (startsWith p (c # cs) \<or> includes_str p cs)"

definition all_space :: "string \<Rightarrow> bool" where
  "all_space s = list_all is_space s"

definition userTurnPattern :: "string \<Rightarrow> bool" where
  \<comment> \<open>\<open>/^USER:?\s*$/i.test(s)\<close>\<close>
  "userTurnPattern s =
     (startsWithCI ''USER'' s \<and>
      (let r = drop 4 s in all_space (if startsWith '':'' r then drop 1 r else r)))"

definition agentMatch :: "string \<Rightarrow> (string \<times> string) option" where
  \<comment> \<open>\<open>s.match(/^AGENT:([\w_]+)[\s\n]*(.*)$/s)\<close>: both groups when it matches. The greedy
      first attempt succeeds whenever a word character follows the colon, since the last
      group takes the rest of the text under the flag \<open>s\<close>.\<close>
  "agentMatch s =
     (if startsWith ''AGENT:'' s then
        (let r = drop 6 s; g1 = takeWhile is_word r in
         if g1 = [] then None
         else Some (g1, dropWhile is_space (dropWhile is_word r)))
      else None)"

definition stripLeadingNewlines :: "string \<Rightarrow> string" where
  \<comment> \<open>\<open>s.replace(/^\s*\n+/, '')\<close>: the match ends at the last line feed of the leading
      run of whitespace; without a line feed there, nothing is replaced.\<close>
  "stripLeadingNewlines s =
     (let w = takeWhile is_space s in
      if CHR 0x0A \<in> set w
      then drop (length w - length (takeWhile (\<lambda>c. c \<noteq> CHR 0x0A) (rev w))) s
      else s)"

function removeLabels :: "string \<Rightarrow> string" where
  \<comment> \<open>\<open>s.replace(/\[[^\]]+\]:\s*/g, '')\<close>\<close>
  "removeLabels [] = []"
| "removeLabels (c # cs) =
     (if c = CHR ''['' \<and> takeWhile (\<lambda>x. x \<noteq> CHR '']'') cs \<noteq> []
         \<and> startsWith '']:'' (dropWhile (\<lambda>x. x \<noteq> CHR '']'') cs)
      then removeLabels (dropWhile is_space (drop 2 (dropWhile (\<lambda>x. x \<noteq> CHR '']'') cs)))
      else c # removeLabels cs)"
  by pat_completeness auto
termination
proof (relation "measure length")
  show "wf (measure length)" by simp
next
  fix c :: char and cs :: string
  have "length (dropWhile is_space (drop 2 (dropWhile (\<lambda>x. x \<noteq> CHR '']'') cs)))
        \<le> length (drop 2 (dropWhile (\<lambda>x. x \<noteq> CHR '']'') cs))"
    by (rule length_dropWhile_le)
  also have "\<dots> \<le> length (dropWhile (\<lambda>x. x \<noteq> CHR '']'') cs)" by simp
  also have "\<dots> \<le> length cs" by (rule length_dropWhile_le)
  finally show "(dropWhile is_space (drop 2 (dropWhile (\<lambda>x. x \<noteq> CHR '']'') cs)), c # cs)
        \<in> measure length" by simp
next
  fix c :: char and cs :: string
  show "(cs, c # cs) \<in> measure length" by simp
qed

definition stripLeadingUser :: "string \<Rightarrow> string" where
  \<comment> \<open>\<open>s.replace(/^USER:\s*/i, '')\<close>\<close>
  "stripLeadingUser s =
     (if startsWithCI ''USER:'' s then dropWhile is_space (drop 5 s) else s)"

definition tailUserMatch :: "string \<Rightarrow> bool" where
  \<comment> \<open>\<open>/^\s*USER:\s*$/i\<close> on the rest of the text from one position\<close>
  "tailUserMatch s =
     (let r = dropWhile is_space s in startsWithCI ''USER:'' r \<and> all_space (drop 5 r))"

fun stripTrailingUser :: "string \<Rightarrow> string" where
  \<comment> \<open>\<open>s.replace(/\s*USER:\s*$/i, '')\<close>: the leftmost position from which the pattern
      reaches the end of the text; the text is cut there.\<close>
  "stripTrailingUser [] = []"
| "stripTrailingUser (c # cs) =
     (if tailUserMatch (c # cs) then [] else c # stripTrailingUser cs)"

function removeUserMarkers :: "bool \<Rightarrow> string \<Rightarrow> string" where
  \<comment> \<open>\<open>s.replace(/\bUSER:\s*/gi, '')\<close>; the flag says that the character before the
      position is a word character (then \<open>\b\<close> fails before the letter U).\<close>
  "removeUserMarkers pw [] = []"
| "removeUserMarkers pw (c # cs) =
     (if \<not> pw \<and> startsWithCI ''USER:'' (c # cs)
      then removeUserMarkers False (dropWhile is_space (drop 4 cs))
      else c # removeUserMarkers (is_word c) cs)"
  by pat_completeness auto
termination
proof (relation "measure (\<lambda>(pw, s). length s)")
  show "wf (measure (\<lambda>(pw, s). length s))" by simp
next
  fix pw :: bool and c :: char and cs :: string
  have "length (dropWhile is_space (drop 4 cs)) \<le> length (drop 4 cs)"
    by (rule length_dropWhile_le)
  also have "\<dots> \<le> length cs" by simp
  finally show "((False, dropWhile is_space (drop 4 cs)), (pw, c # cs))
        \<in> measure (\<lambda>(pw, s). length s)" by simp
next
  fix pw :: bool and c :: char and cs :: string
  show "((is_word c, cs), (pw, c # cs)) \<in> measure (\<lambda>(pw, s). length s)" by simp
qed

fun beforeEnd :: "string \<Rightarrow> string" where
  \<comment> \<open>group 1 of \<open>s.match(/^(.*?)(?:\n?END:.*)?$/s)\<close>, which always matches: the shortest
      prefix after which the text reads \<open>END:\<close> or a line feed and \<open>END:\<close>, or all of it.\<close>
  "beforeEnd [] = []"
| "beforeEnd (c # cs) =
     (if startsWith ''END:'' (c # cs) \<or> startsWith (CHR 0x0A # ''END:'') (c # cs) then []
      else c # beforeEnd cs)"

section \<open>Roster, conversation log and turn decisions\<close>

record agent =
  a_id :: string
  a_name :: string
  designation :: string
  personalities :: string
  gender :: string

text \<open>
  One entry of the conversation memory. \<open>aiId\<close> is present on assistant messages only
  (\<open>None\<close> is the absent field). The timestamp of the source is not modelled: nothing
  reads it.
\<close>

record message =
  role :: string
  content :: string
  aiId :: "string option"

text \<open>
  The value \<open>decideAndGenerateResponse\<close> returns: \<open>response = None\<close> is \<open>null\<close>, and
  \<open>shouldEnd = False\<close> is the absent field.
\<close>

record decision =
  speaker :: string
  response :: "string option"
  shouldEnd :: bool

definition mkDecision :: "string \<Rightarrow> string option \<Rightarrow> bool \<Rightarrow> decision" where
  "mkDecision s r e = \<lparr>speaker = s, response = r, shouldEnd = e\<rparr>"

fun findIndex :: "('a \<Rightarrow> bool) \<Rightarrow> 'a list \<Rightarrow> int" where
  \<comment> \<open>\<open>Array.prototype.findIndex\<close>: the first index whose element passes, or \<open>-1\<close>\<close>
  "findIndex P [] = -1"
| "findIndex P (x # xs) =
     (if P x then 0 else (let i = findIndex P xs in if i < 0 then -1 else i + 1))"

definition agentSpoke :: "message \<Rightarrow> bool" where
  \<comment> \<open>\<open>msg.role === 'assistant' && msg.aiId\<close>: the empty string is falsy\<close>
  "agentSpoke m = (role m = ''assistant'' \<and> aiId m \<noteq> None \<and> aiId m \<noteq> Some [])"

definition fallbackDecision :: "agent list \<Rightarrow> message list \<Rightarrow> decision" where
  "fallbackDecision agents history =
     (if length agents = 0 then mkDecision ''user'' None False
      else
        (case find agentSpoke (rev history) of
           Some m \<Rightarrow>
             (let lastAgentId = the (aiId m);
                  lastIndex = findIndex (\<lambda>a. a_id a = lastAgentId) agents;
                  nextIndex = (lastIndex + 1) mod int (length agents)
              in mkDecision (a_id (agents ! nat nextIndex)) None False)
         | None \<Rightarrow> mkDecision (a_id (agents ! 0)) None False))"

definition cleanAgentResponse :: "string \<Rightarrow> string" where
  \<comment> \<open>the cleaning of the body after \<open>AGENT:id\<close>, in the source's order\<close>
  "cleanAgentResponse g2 =
     (let r0 = trim g2;
          r1 = trim (stripLeadingNewlines r0);
          r2 = trim (removeLabels r1);
          r3 = trim (stripLeadingUser r2);
          r4 = trim (stripTrailingUser r3);
          r5 = trim (removeUserMarkers False r4)
      in r5)"

definition parseResponse :: "agent list \<Rightarrow> message list \<Rightarrow> string \<Rightarrow> decision" where
  \<comment> \<open>\<open>decideAndGenerateResponse\<close> from the provider's text on: \<open>fullHistory\<close> is the log
      the function read before the call.\<close>
  "parseResponse agents fullHistory resp =
     (let trimmedResponse = trim resp in
      if startsWith ''END:'' trimmedResponse \<or> trimmedResponse = ''END''
      then mkDecision ''end'' None False
      else if userTurnPattern trimmedResponse then mkDecision ''user'' None False
      else if toUpperCase (trim trimmedResponse) = ''USER''
              \<or> toUpperCase (trim trimmedResponse) = ''USER:''
      then mkDecision ''user'' None False
      else
        (case agentMatch trimmedResponse of
           Some (g1, g2) \<Rightarrow>
             (let agentId = trim g1; agentResponse = cleanAgentResponse g2 in
              if agentResponse = [] \<or> trim (toUpperCase agentResponse) = ''USER''
                 \<or> trim (toUpperCase agentResponse) = ''USER:''
              then fallbackDecision agents fullHistory
              else if includes_str ''END:'' agentResponse
                      \<or> includes_str (CHR 0x0A # ''END:'') trimmedResponse
              then mkDecision agentId (Some (trim (beforeEnd agentResponse))) True
              else if agentId \<in> set (map a_id agents)
              then mkDecision agentId (Some agentResponse) False
              else fallbackDecision agents fullHistory)
         | None \<Rightarrow>
             (case find (\<lambda>a. includes_str (toLowerCase (a_id a)) (toLowerCase trimmedResponse)
                            \<or> includes_str (toLowerCase (a_name a)) (toLowerCase trimmedResponse))
                     agents of
                Some a \<Rightarrow> mkDecision (a_id a) (Some (trim (removeLabels trimmedResponse))) False
              | None \<Rightarrow> fallbackDecision agents fullHistory)))"

section \<open>The speech renderer (ttsService.js)\<close>

text \<open>
  \<open>createWavHeader\<close>: the 44 bytes of the source, in order.
\<close>

definition createWavHeader :: "8 word list" where
  "createWavHeader =
     [0x52, 0x49, 0x46, 0x46,
      0x00, 0x00, 0x00, 0x00,
      0x57, 0x41, 0x56, 0x45,
      0x66, 0x6d, 0x74, 0x20,
      0x10, 0x00, 0x00, 0x00,
      0x01, 0x00,
      0x01, 0x00,
      0x80, 0xbb, 0x00, 0x00,
      0x00, 0xee, 0x02, 0x00,
      0x02, 0x00,
      0x10, 0x00,
      0x64, 0x61, 0x74, 0x61,
      0x00, 0x00, 0x00, 0x00]"

definition le_value :: "8 word list \<Rightarrow> nat" where
  \<comment> \<open>the unsigned number a little-endian field of a RIFF header holds\<close>
  "le_value bs = foldr (\<lambda>b acc. unat b + 256 * acc) bs 0"

definition field :: "nat \<Rightarrow> nat \<Rightarrow> 8 word list \<Rightarrow> 8 word list" where
  \<comment> \<open>\<open>n\<close> bytes from offset \<open>off\<close>\<close>
  "field off n bs = take n (drop off bs)"

definition voiceModel :: "string \<Rightarrow> int \<Rightarrow> string" where
  \<comment> \<open>\<open>createTTSConnection\<close>: \<open>voiceModels[gender] || voiceModels.female\<close>, at index
      \<open>Math.min(voiceIndex, 2)\<close>; the index is never negative here.\<close>
  "voiceModel g voiceIndex =
     (let voiceArray =
            (if g = ''male'' then [''aura-2-arcas-en'', ''aura-2-orpheus-en'', ''aura-2-zeus-en'']
             else [''aura-2-thalia-en'', ''aura-2-amalthea-en'', ''aura-2-andromeda-en''])
      in voiceArray ! nat (min voiceIndex 2))"

text \<open>
  How \<open>streamTextToSpeech\<close> begins. With no text (\<open>null\<close> is \<open>None\<close>), an empty text or
  only whitespace it calls \<open>onComplete\<close> and returns before any connection is made. Otherwise
  \<open>createTTSConnection\<close> throws when no API key is configured (the error goes to \<open>onError\<close>),
  or a connection is made and the function waits for it to open.
\<close>

datatype tts_start = TtsSkipped | TtsThrew | TtsConnecting

definition streamTextToSpeech_start :: "string option \<Rightarrow> bool \<Rightarrow> tts_start" where
  "streamTextToSpeech_start text configured =
     (case text of
        None \<Rightarrow> TtsSkipped
      | Some t \<Rightarrow>
          if t = [] \<or> trim t = [] then TtsSkipped
          else if \<not> configured then TtsThrew
          else TtsConnecting)"

section \<open>Sessions, events and the state of the process\<close>

text \<open>
  A field of a JavaScript object that holds an agent id: never assigned, \<open>null\<close>, or a
  string. The client's \<open>aiId\<close> of an \<open>audio_playback_complete\<close> message has the same shape
  (a JSON value of another type compares under \<open>===\<close> like a string that is no agent's id).
\<close>

datatype jsval = Undefined | Null | Str string

text \<open>The objects the session's callbacks are handed, by their \<open>type\<close> field.\<close>

datatype event =
    UserTurn
  | AiThinking string
  | AiResponseStart string string string
  | AiResponseChunk string string
  | TtsFirstAudio string
  | AiAudioChunk string "8 word list"
  | AiAudioEnd string
  | AiResponseEnd string string string
  | ConversationEnded
  | ErrorEvent "string option" string

text \<open>
  The session object of \<open>ChatManager.sessions\<close>. The three callbacks are addresses of
  sinks; \<open>waitingForAudioComplete\<close> is \<open>None\<close> until it is first assigned (createSession
  does not set it, nor \<open>currentSpeakingAgentId\<close>). \<open>createdAt\<close> is not modelled.
\<close>

record session =
  agents :: "agent list"
  scenario :: string
  userName :: string
  userRole :: string
  onStreamChunk :: nat
  onStreamComplete :: nat
  onError :: nat
  isProcessing :: bool
  waitingForAudioComplete :: "bool option"
  currentSpeakingAgentId :: jsval

text \<open>
  A call of \<open>continueConversation\<close> that has started, and the \<open>await\<close> it is suspended at.
  The call keeps the session object it read at its start (an address), the decision, the agent
  and the text so far.
  \<^item> \<open>AwaitDecision h\<close>: inside \<open>decideAndGenerateResponse\<close>, waiting for the provider;
    \<open>h\<close> is the array \<open>getMessages\<close> returned (\<open>None\<close>: the fresh empty array of \<open>|| []\<close>).
  \<^item> \<open>AwaitStream ag d full svc\<close>: inside \<open>streamChatCompletion\<close>; \<open>full\<close> is the caller's
    \<open>fullResponse\<close>, \<open>svc\<close> the service's.
  \<^item> \<open>AwaitTts ag d full c\<close>: inside \<open>streamTextToSpeech\<close>, waiting for connection \<open>c\<close> to open.
  \<^item> \<open>Returned\<close>: the call is over.
\<close>

datatype phase =
    AwaitDecision "nat option"
  | AwaitStream agent decision string string
  | AwaitTts agent decision string nat
  | Returned

record task =
  t_sessionId :: string
  t_session :: nat
  t_phase :: phase

text \<open>
  A TTS connection with the variables its callbacks close over: the session object and agent
  of the turn, \<open>firstAudioChunk\<close> and \<open>ttsFirstAudioSent\<close> of \<open>continueConversation\<close>, and
  \<open>flushed\<close> of \<open>streamTextToSpeech\<close>. \<open>c_open\<close>: the connection has opened, the text is sent.
\<close>

record conn =
  c_session :: nat
  c_agentId :: string
  c_model :: string
  firstAudioChunk :: bool
  ttsFirstAudioSent :: bool
  c_open :: bool
  flushed :: bool

text \<open>A call of \<open>createSession\<close> that waits for \<open>generateAgents\<close>.\<close>

record pending =
  p_sessionId :: string
  p_scenario :: string
  p_userName :: string
  p_userRole :: string
  p_onStreamChunk :: nat
  p_onStreamComplete :: nat
  p_onError :: nat
  p_done :: bool

datatype level = LWarn | LError

text \<open>
  The state of the process. \<open>sessions\<close> and \<open>memories\<close> are the two \<open>Map\<close>s; they hold
  addresses, since a suspended call keeps its session object and its array after the entry is
  deleted or replaced. \<open>sent\<close> lists every callback invocation in order (the sink's address and
  the event), \<open>logs\<close> the warnings and errors that ChatManager and the two services write to
  the logger (info lines and the lines of the orchestrator and the agent generator are left out),
  \<open>timers\<close> the pending \<open>setTimeout\<close> calls (all of 500 ms, so they fire in order), each
  naming the session to continue. \<open>deepgram\<close> says whether the API key is configured.
\<close>

record world =
  sessions :: "string \<rightharpoonup> nat"
  heap :: "nat \<Rightarrow> session"
  nextSession :: nat
  memories :: "string \<rightharpoonup> nat"
  arrays :: "nat \<Rightarrow> message list"
  nextArray :: nat
  tasks :: "task list"
  conns :: "conn list"
  creating :: "pending list"
  timers :: "string list"
  sent :: "(nat \<times> event) list"
  logs :: "(level \<times> string) list"
  deepgram :: bool

definition emit :: "nat \<Rightarrow> event \<Rightarrow> world \<Rightarrow> world" where
  "emit cb e w = w\<lparr>sent := sent w @ [(cb, e)]\<rparr>"

definition logMsg :: "level \<Rightarrow> string \<Rightarrow> world \<Rightarrow> world" where
  "logMsg l m w = w\<lparr>logs := logs w @ [(l, m)]\<rparr>"

definition updSession :: "nat \<Rightarrow> (session \<Rightarrow> session) \<Rightarrow> world \<Rightarrow> world" where
  "updSession a f w = w\<lparr>heap := (heap w)(a := f (heap w a))\<rparr>"

definition setPhase :: "nat \<Rightarrow> phase \<Rightarrow> world \<Rightarrow> world" where
  "setPhase tid p w = w\<lparr>tasks := (tasks w)[tid := (tasks w ! tid)\<lparr>t_phase := p\<rparr>]\<rparr>"

definition updConn :: "nat \<Rightarrow> (conn \<Rightarrow> conn) \<Rightarrow> world \<Rightarrow> world" where
  "updConn c f w = w\<lparr>conns := (conns w)[c := f (conns w ! c)]\<rparr>"

subsection \<open>conversationMemory.js\<close>

definition systemContent :: "string \<Rightarrow> string \<Rightarrow> string \<Rightarrow> string" where
  "systemContent scen uname urole =
     ''This is a practice session for '' @ uname @ '' who is practicing for: '' @ [CHR 0x22] @ scen
       @ [CHR 0x22] @ ''.'' @ [CHR 0x0A] @ ''User Role: '' @ urole @ [CHR 0x0A, CHR 0x0A]
       @ ''This is a natural conversation practice session. The conversation will flow naturally with agents and the user taking turns. All participants share the same conversation history and can see all previous messages.''"

definition initializeSession :: "string \<Rightarrow> string \<Rightarrow> string \<Rightarrow> string \<Rightarrow> world \<Rightarrow> world" where
  "initializeSession sid scen uname urole w =
     w\<lparr>arrays := (arrays w)(nextArray w :=
            [\<lparr>role = ''system'', content = systemContent scen uname urole, aiId = None\<rparr>]),
       memories := (memories w)(sid \<mapsto> nextArray w),
       nextArray := Suc (nextArray w)\<rparr>"

definition pushMessage :: "string \<Rightarrow> message \<Rightarrow> world \<Rightarrow> world" where
  \<comment> \<open>\<open>const messages = this.memories.get(sessionId) || []; messages.push(m);
      this.memories.set(sessionId, messages)\<close>\<close>
  "pushMessage sid m w =
     (case memories w sid of
        Some r \<Rightarrow> w\<lparr>arrays := (arrays w)(r := arrays w r @ [m])\<rparr>
      | None \<Rightarrow>
          w\<lparr>arrays := (arrays w)(nextArray w := [m]),
            memories := (memories w)(sid \<mapsto> nextArray w),
            nextArray := Suc (nextArray w)\<rparr>)"

definition addUserMessage :: "string \<Rightarrow> string \<Rightarrow> world \<Rightarrow> world" where
  "addUserMessage sid c w = pushMessage sid \<lparr>role = ''user'', content = c, aiId = None\<rparr> w"

definition addAssistantMessage :: "string \<Rightarrow> string \<Rightarrow> string \<Rightarrow> world \<Rightarrow> world" where
  "addAssistantMessage sid c a w =
     pushMessage sid \<lparr>role = ''assistant'', content = c, aiId = Some a\<rparr> w"

definition getMessages :: "string \<Rightarrow> world \<Rightarrow> message list" where
  "getMessages sid w = (case memories w sid of Some r \<Rightarrow> arrays w r | None \<Rightarrow> [])"

definition clearSession :: "string \<Rightarrow> world \<Rightarrow> world" where
  "clearSession sid w = w\<lparr>memories := (memories w)(sid := None)\<rparr>"

section \<open>ChatManager: the session turn controller\<close>

text \<open>
  Each function below is one stretch of the source that runs without interruption: from an
  entry point or from the point where an awaited call resumes, up to the next \<open>await\<close> or
  the return.
\<close>

definition personalityOf :: "agent \<Rightarrow> string" where
  \<comment> \<open>the template \<open>${agent.name} (${agent.designation})\<close>\<close>
  "personalityOf ag = a_name ag @ '' ('' @ designation ag @ '')''"

definition orDefault :: "string \<Rightarrow> string \<Rightarrow> string" where
  \<comment> \<open>\<open>s || d\<close> on strings: the empty string is falsy\<close>
  "orDefault s d = (if s = [] then d else s)"

definition newSession :: "pending \<Rightarrow> agent list \<Rightarrow> session" where
  "newSession p ags =
     \<lparr>agents = ags, scenario = p_scenario p, userName = p_userName p, userRole = p_userRole p,
      onStreamChunk = p_onStreamChunk p, onStreamComplete = p_onStreamComplete p,
      onError = p_onError p, isProcessing = False,
      waitingForAudioComplete = None, currentSpeakingAgentId = Undefined\<rparr>"

definition createSession_start ::
  "string \<Rightarrow> string \<Rightarrow> string \<Rightarrow> string \<Rightarrow> nat \<Rightarrow> nat \<Rightarrow> nat \<Rightarrow> world \<Rightarrow> world" where
  \<comment> \<open>\<open>createSession\<close> up to \<open>await agentGenerator.generateAgents\<close>; with a missing field it
      throws before anything is changed\<close>
  "createSession_start sid scen uname urole cb1 cb2 cb3 w =
     (if scen = [] \<or> uname = [] \<or> urole = [] then w
      else
        (let w1 = initializeSession sid scen uname urole w in
         w1\<lparr>creating := creating w1 @
              [\<lparr>p_sessionId = sid, p_scenario = scen, p_userName = uname, p_userRole = urole,
                p_onStreamChunk = cb1, p_onStreamComplete = cb2, p_onError = cb3,
                p_done = False\<rparr>]\<rparr>))"

definition createSession_resume :: "nat \<Rightarrow> string + agent list \<Rightarrow> world \<Rightarrow> world" where
  \<comment> \<open>\<open>createSession\<close> from the answer of \<open>generateAgents\<close> on: \<open>Inl msg\<close> is a thrown error
      with that message, \<open>Inr ags\<close> the agents returned\<close>
  "createSession_resume k res w =
     (if k < length (creating w) \<and> \<not> p_done (creating w ! k) then
        (let p = creating w ! k;
             w1 = w\<lparr>creating := (creating w)[k := p\<lparr>p_done := True\<rparr>]\<rparr>;
             failure = (case res of Inl msg \<Rightarrow> Some msg
                        | Inr ags \<Rightarrow> if length ags = 0 then Some ''Failed to generate agents''
                                     else None)
         in case failure of
              Some msg \<Rightarrow>
                emit (p_onError p) (ErrorEvent None (orDefault msg ''Failed to generate agents''))
                  (logMsg LError ''Error generating agents:'' w1)
            | None \<Rightarrow>
                (let ags = (case res of Inr ags \<Rightarrow> ags | Inl _ \<Rightarrow> []) in
                 w1\<lparr>heap := (heap w1)(nextSession w1 := newSession p ags),
                    sessions := (sessions w1)(p_sessionId p \<mapsto> nextSession w1),
                    nextSession := Suc (nextSession w1),
                    timers := timers w1 @ [p_sessionId p]\<rparr>))
      else w)"

definition continueConversation :: "string \<Rightarrow> world \<Rightarrow> world" where
  \<comment> \<open>\<open>continueConversation\<close> up to \<open>await openaiService.createChatCompletion\<close> inside
      \<open>decideAndGenerateResponse\<close>, which has read the log by then\<close>
  "continueConversation sid w =
     (case sessions w sid of
        None \<Rightarrow> logMsg LError (''Session '' @ sid @ '' not found'') w
      | Some a \<Rightarrow>
          if isProcessing (heap w a)
          then logMsg LWarn (''Session '' @ sid
                 @ '' is already processing, skipping to prevent concurrent responses'') w
          else if waitingForAudioComplete (heap w a) = Some True
          then logMsg LWarn (''Session '' @ sid
                 @ '' is waiting for audio playback to complete, skipping'') w
          else
            (let w1 = updSession a (\<lambda>s. s\<lparr>isProcessing := True\<rparr>) w in
             w1\<lparr>tasks := tasks w1 @
                  [\<lparr>t_sessionId = sid, t_session = a,
                    t_phase = AwaitDecision (memories w sid)\<rparr>]\<rparr>))"

definition finishTurn :: "nat \<Rightarrow> agent \<Rightarrow> decision \<Rightarrow> string \<Rightarrow> world \<Rightarrow> world" where
  \<comment> \<open>from \<open>// Notify completion\<close> to the end of the \<open>try\<close> block\<close>
  "finishTurn tid ag d full w =
     (let a = t_session (tasks w ! tid);
          cb = onStreamComplete (heap w a);
          w1 = emit cb (AiResponseEnd (speaker d) full (personalityOf ag)) w;
          w2 = updSession a (\<lambda>s. s\<lparr>waitingForAudioComplete := Some True,
                                     currentSpeakingAgentId := Str (speaker d)\<rparr>) w1;
          w3 = (if speaker d = ''end'' \<or> shouldEnd d
                then updSession a (\<lambda>s. s\<lparr>waitingForAudioComplete := Some False,
                                          currentSpeakingAgentId := Null,
                                          isProcessing := False\<rparr>)
                       (emit cb ConversationEnded w2)
                else w2)
      in setPhase tid Returned w3)"

definition newConn :: "nat \<Rightarrow> string \<Rightarrow> string \<Rightarrow> conn" where
  "newConn a agentId model =
     \<lparr>c_session = a, c_agentId = agentId, c_model = model, firstAudioChunk = True,
      ttsFirstAudioSent = False, c_open = False, flushed = False\<rparr>"

definition afterText :: "nat \<Rightarrow> agent \<Rightarrow> decision \<Rightarrow> string \<Rightarrow> world \<Rightarrow> world" where
  \<comment> \<open>from \<open>// Add to conversation memory\<close> into \<open>streamTextToSpeech\<close>, up to its
      \<open>await\<close> for the connection; when the renderer returns at once, on to the end\<close>
  "afterText tid ag d full w =
     (let t = tasks w ! tid;
          a = t_session t;
          agentId = speaker d;
          w1 = addAssistantMessage (t_sessionId t) full agentId w;
          agentGender = orDefault (gender ag) ''female'';
          agentIndex = findIndex (\<lambda>x. a_id x = agentId) (agents (heap w a));
          voiceIndex = (if agentIndex \<ge> 0 then agentIndex mod 3 else 0)
      in case streamTextToSpeech_start (Some full) (deepgram w) of
           TtsSkipped \<Rightarrow>
             finishTurn tid ag d full (emit (onStreamChunk (heap w a)) (AiAudioEnd agentId) w1)
         | TtsThrew \<Rightarrow>
             finishTurn tid ag d full
               (logMsg LError (''Error in TTS for agent '' @ agentId @ '':'')
                  (logMsg LError ''Error in streamTextToSpeech:'' w1))
         | TtsConnecting \<Rightarrow>
             setPhase tid (AwaitTts ag d full (length (conns w1)))
               (w1\<lparr>conns := conns w1 @ [newConn a agentId (voiceModel agentGender voiceIndex)]\<rparr>))"

definition afterDecision :: "nat \<Rightarrow> decision \<Rightarrow> world \<Rightarrow> world" where
  \<comment> \<open>from the decision on: the user's turn, the agent lookup, the start events, and the
      choice between the text of the decision and the streaming call\<close>
  "afterDecision tid d w =
     (let a = t_session (tasks w ! tid); s = heap w a in
      if speaker d = ''user''
      then setPhase tid Returned
             (emit (onStreamChunk s) UserTurn (updSession a (\<lambda>s. s\<lparr>isProcessing := False\<rparr>) w))
      else
        (case find (\<lambda>x. a_id x = speaker d) (agents s) of
           None \<Rightarrow>
             setPhase tid Returned
               (updSession a (\<lambda>s. s\<lparr>isProcessing := False\<rparr>)
                  (logMsg LError (''Agent '' @ speaker d @ '' not found'') w))
         | Some ag \<Rightarrow>
             (let w1 = emit (onStreamChunk s)
                         (AiResponseStart (speaker d) (personalityOf ag) (gender ag))
                         (emit (onStreamChunk s) (AiThinking ''AI is thinking...'') w)
              in case response d of
                   Some txt \<Rightarrow>
                     if trim txt \<noteq> []
                     then afterText tid ag d txt
                            (emit (onStreamChunk s) (AiResponseChunk (speaker d) txt) w1)
                     else setPhase tid (AwaitStream ag d [] []) w1
                 | None \<Rightarrow> setPhase tid (AwaitStream ag d [] []) w1)))"

definition decision_resume :: "nat \<Rightarrow> string option \<Rightarrow> world \<Rightarrow> world" where
  \<comment> \<open>the provider answers \<open>createChatCompletion\<close> with a text, or the call throws or
      answers without a text (\<open>None\<close>) and the \<open>catch\<close> of \<open>decideAndGenerateResponse\<close>
      reads the log again\<close>
  "decision_resume tid r w =
     (if tid < length (tasks w) then
        (let t = tasks w ! tid in
         case t_phase t of
           AwaitDecision h \<Rightarrow>
             (let ags = agents (heap w (t_session t));
                  fullHistory = (case h of Some x \<Rightarrow> arrays w x | None \<Rightarrow> []);
                  d = (case r of
                         Some txt \<Rightarrow> parseResponse ags fullHistory txt
                       | None \<Rightarrow> fallbackDecision ags (getMessages (t_sessionId t) w))
              in afterDecision tid d w)
         | _ \<Rightarrow> w)
      else w)"

definition stream_chunk :: "nat \<Rightarrow> string \<Rightarrow> world \<Rightarrow> world" where
  \<comment> \<open>one chunk of the stream: empty content is skipped, the rest goes to \<open>onChunk\<close>\<close>
  "stream_chunk tid c w =
     (if tid < length (tasks w) then
        (let t = tasks w ! tid in
         case t_phase t of
           AwaitStream ag d full svc \<Rightarrow>
             if c = [] then w
             else setPhase tid (AwaitStream ag d (full @ c) (svc @ c))
                    (emit (onStreamChunk (heap w (t_session t))) (AiResponseChunk (speaker d) c) w)
         | _ \<Rightarrow> w)
      else w)"

definition stream_complete :: "nat \<Rightarrow> world \<Rightarrow> world" where
  \<comment> \<open>the stream ends: \<open>onComplete(fullResponse)\<close> of the service, then the caller goes on\<close>
  "stream_complete tid w =
     (if tid < length (tasks w) then
        (case t_phase (tasks w ! tid) of
           AwaitStream ag d full svc \<Rightarrow> afterText tid ag d svc w
         | _ \<Rightarrow> w)
      else w)"

definition stream_error :: "nat \<Rightarrow> string \<Rightarrow> world \<Rightarrow> world" where
  \<comment> \<open>the stream throws: the service catches and calls \<open>onError\<close>, then returns normally, and
      the caller goes on after its \<open>await\<close>\<close>
  "stream_error tid msg w =
     (if tid < length (tasks w) then
        (let t = tasks w ! tid; a = t_session t in
         case t_phase t of
           AwaitStream ag d full svc \<Rightarrow>
             afterText tid ag d full
               (updSession a (\<lambda>s. s\<lparr>isProcessing := False\<rparr>)
                  (emit (onError (heap w a))
                     (ErrorEvent (Some (speaker d)) (orDefault msg ''Failed to generate response''))
                     (logMsg LError ''Error streaming agent response:''
                        (logMsg LError ''OpenAI API Error:'' w))))
         | _ \<Rightarrow> w)
      else w)"

definition tts_open :: "nat \<Rightarrow> world \<Rightarrow> world" where
  \<comment> \<open>the connection opens: the text is sent and flushed, the handlers are set,
      \<open>streamTextToSpeech\<close> returns and the caller goes on\<close>
  "tts_open tid w =
     (if tid < length (tasks w) then
        (case t_phase (tasks w ! tid) of
           AwaitTts ag d full c \<Rightarrow> finishTurn tid ag d full (updConn c (\<lambda>x. x\<lparr>c_open := True\<rparr>) w)
         | _ \<Rightarrow> w)
      else w)"

definition tts_open_fail :: "nat \<Rightarrow> world \<Rightarrow> world" where
  \<comment> \<open>the connection reports an error or does not open within 5 s: the promise rejects,
      \<open>streamTextToSpeech\<close> catches, calls \<open>onError\<close> and returns; no text is ever sent\<close>
  "tts_open_fail tid w =
     (if tid < length (tasks w) then
        (case t_phase (tasks w ! tid) of
           AwaitTts ag d full c \<Rightarrow>
             finishTurn tid ag d full
               (logMsg LError (''Error in TTS for agent '' @ speaker d @ '':'')
                  (logMsg LError ''Error in streamTextToSpeech:'' w))
         | _ \<Rightarrow> w)
      else w)"

definition task_throws :: "nat \<Rightarrow> string \<Rightarrow> world \<Rightarrow> world" where
  \<comment> \<open>the \<open>catch\<close> block of \<open>continueConversation\<close>, entered from one of its \<open>await\<close>s. The
      awaited calls of the source catch their own failures, so this step stands for an
      unexpected exception only.\<close>
  "task_throws tid msg w =
     (if tid < length (tasks w) \<and> t_phase (tasks w ! tid) \<noteq> Returned then
        (let a = t_session (tasks w ! tid) in
         setPhase tid Returned
           (emit (onError (heap w a)) (ErrorEvent None (orDefault msg ''Failed to continue conversation''))
              (updSession a (\<lambda>s. s\<lparr>isProcessing := False\<rparr>)
                 (logMsg LError ''Error in continueConversation:'' w))))
      else w)"

definition onAudioChunk :: "conn \<Rightarrow> 8 word list \<Rightarrow> event list \<times> conn" where
  \<comment> \<open>the \<open>onAudioChunk\<close> callback of \<open>continueConversation\<close>: the events it hands to
      \<open>onStreamChunk\<close>, and its variables afterwards\<close>
  "onAudioChunk c audioBuffer =
     (if firstAudioChunk c then
        ((if \<not> ttsFirstAudioSent c then [TtsFirstAudio (c_agentId c)] else [])
           @ [AiAudioChunk (c_agentId c) (createWavHeader @ audioBuffer)],
         c\<lparr>firstAudioChunk := False, ttsFirstAudioSent := True\<rparr>)
      else ([AiAudioChunk (c_agentId c) audioBuffer], c))"

fun deliverAudio :: "conn \<Rightarrow> 8 word list list \<Rightarrow> event list \<times> conn" where
  \<comment> \<open>the callback run on the chunks of one utterance, in order\<close>
  "deliverAudio c [] = ([], c)"
| "deliverAudio c (b # bs) =
     (let (es, c1) = onAudioChunk c b; (es', c2) = deliverAudio c1 bs in (es @ es', c2))"

definition tts_audio :: "nat \<Rightarrow> 8 word list \<Rightarrow> world \<Rightarrow> world" where
  \<comment> \<open>the handler of \<open>LiveTTSEvents.Audio\<close> on an open connection\<close>
  "tts_audio c audioBuffer w =
     (if c < length (conns w) \<and> c_open (conns w ! c) then
        (let x = conns w ! c; (es, x') = onAudioChunk x audioBuffer;
             cb = onStreamChunk (heap w (c_session x))
         in (updConn c (\<lambda>_. x') w)\<lparr>sent := sent w @ map (Pair cb) es\<rparr>)
      else w)"

definition tts_complete :: "bool \<Rightarrow> nat \<Rightarrow> world \<Rightarrow> world" where
  \<comment> \<open>the handler of \<open>LiveTTSEvents.Flushed\<close> and the 30 s timer of \<open>streamTextToSpeech\<close>
      (\<open>timedOut = True\<close>; it also writes a warning): the first of them to run sets
      \<open>flushed\<close>, finishes the connection and calls \<open>onComplete\<close>\<close>
  "tts_complete timedOut c w =
     (if c < length (conns w) \<and> c_open (conns w ! c) \<and> \<not> flushed (conns w ! c) then
        (let x = conns w ! c;
             w1 = (if timedOut then logMsg LWarn ''TTS stream timeout, closing connection'' w
                   else w)
         in emit (onStreamChunk (heap w (c_session x))) (AiAudioEnd (c_agentId x))
              (updConn c (\<lambda>x. x\<lparr>flushed := True\<rparr>) w1))
      else w)"

definition tts_error :: "nat \<Rightarrow> world \<Rightarrow> world" where
  \<comment> \<open>the handler of \<open>LiveTTSEvents.Error\<close> on an open connection: two log lines\<close>
  "tts_error c w =
     (if c < length (conns w) \<and> c_open (conns w ! c) then
        logMsg LError (''Error in TTS for agent '' @ c_agentId (conns w ! c) @ '':'')
          (logMsg LError ''TTS error:'' w)
      else w)"

definition onAudioPlaybackComplete :: "string \<Rightarrow> jsval \<Rightarrow> world \<Rightarrow> world" where
  "onAudioPlaybackComplete sid v w =
     (case sessions w sid of
        None \<Rightarrow> logMsg LError (''Session '' @ sid @ '' not found'') w
      | Some a \<Rightarrow>
          if waitingForAudioComplete (heap w a) = Some True
             \<and> currentSpeakingAgentId (heap w a) = v
          then
            (let w1 = updSession a (\<lambda>s. s\<lparr>waitingForAudioComplete := Some False,
                                           currentSpeakingAgentId := Null,
                                           isProcessing := False\<rparr>) w
             in w1\<lparr>timers := timers w1 @ [sid]\<rparr>)
          else logMsg LWarn ''Audio playback complete but not waiting for it'' w)"

definition processUserMessage :: "string \<Rightarrow> string \<Rightarrow> world \<Rightarrow> world" where
  \<comment> \<open>with no session it throws (the message handler answers on the socket); otherwise it
      runs into \<open>continueConversation\<close>\<close>
  "processUserMessage sid txt w =
     (case sessions w sid of
        None \<Rightarrow> logMsg LError ''Message handler error:'' w
      | Some a \<Rightarrow>
          continueConversation sid
            (addUserMessage sid txt
               (emit (onStreamChunk (heap w a)) (AiThinking ''Processing your response...'') w)))"

definition deleteSession :: "string \<Rightarrow> world \<Rightarrow> world" where
  "deleteSession sid w = clearSession sid (w\<lparr>sessions := (sessions w)(sid := None)\<rparr>)"

definition timer_fires :: "world \<Rightarrow> world" where
  \<comment> \<open>the oldest pending timer runs its callback\<close>
  "timer_fires w =
     (case timers w of
        [] \<Rightarrow> w
      | sid # rest \<Rightarrow> continueConversation sid (w\<lparr>timers := rest\<rparr>))"

subsection \<open>Runs\<close>

text \<open>
  What can happen to the process, one event of the event loop at a time: the commands of
  the transport (\<open>start_session\<close>, \<open>message\<close>, \<open>audio_playback_complete\<close>, the REST deletion),
  a timer, and the answers of the two providers to the calls in flight.
\<close>

datatype action =
    CreateSession string string string string nat nat nat
  | AgentsGenerated nat "string + agent list"
  | TimerFires
  | UserMessage string string
  | AudioPlaybackComplete string jsval
  | DeleteSession string
  | DecisionText nat "string option"
  | StreamChunk nat string
  | StreamComplete nat
  | StreamError nat string
  | TtsOpen nat
  | TtsOpenFail nat
  | TtsAudio nat "8 word list"
  | TtsFlushed nat
  | TtsTimeout nat
  | TtsError nat
  | TaskThrows nat string

fun step :: "action \<Rightarrow> world \<Rightarrow> world" where
  "step (CreateSession sid scen uname urole cb1 cb2 cb3) w =
     createSession_start sid scen uname urole cb1 cb2 cb3 w"
| "step (AgentsGenerated k res) w = createSession_resume k res w"
| "step TimerFires w = timer_fires w"
| "step (UserMessage sid txt) w = processUserMessage sid txt w"
| "step (AudioPlaybackComplete sid v) w = onAudioPlaybackComplete sid v w"
| "step (DeleteSession sid) w = deleteSession sid w"
| "step (DecisionText tid r) w = decision_resume tid r w"
| "step (StreamChunk tid c) w = stream_chunk tid c w"
| "step (StreamComplete tid) w = stream_complete tid w"
| "step (StreamError tid msg) w = stream_error tid msg w"
| "step (TtsOpen tid) w = tts_open tid w"
| "step (TtsOpenFail tid) w = tts_open_fail tid w"
| "step (TtsAudio c b) w = tts_audio c b w"
| "step (TtsFlushed c) w = tts_complete False c w"
| "step (TtsTimeout c) w = tts_complete True c w"
| "step (TtsError c) w = tts_error c w"
| "step (TaskThrows tid msg) w = task_throws tid msg w"

fun run :: "action list \<Rightarrow> world \<Rightarrow> world" where
  "run [] w = w"
| "run (x # xs) w = run xs (step x w)"

definition emptySession :: session where
  "emptySession =
     \<lparr>agents = [], scenario = [], userName = [], userRole = [], onStreamChunk = 0,
      onStreamComplete = 0, onError = 0, isProcessing = False,
      waitingForAudioComplete = None, currentSpeakingAgentId = Undefined\<rparr>"

definition init_world :: "bool \<Rightarrow> world" where
  \<comment> \<open>the process after start-up: no session, no log; unused addresses hold blanks\<close>
  "init_world configured =
     \<lparr>sessions = Map.empty, heap = (\<lambda>_. emptySession), nextSession = 0,
      memories = Map.empty, arrays = (\<lambda>_. []), nextArray = 0,
      tasks = [], conns = [], creating = [], timers = [], sent = [], logs = [],
      deepgram = configured\<rparr>"

definition in_flight :: "nat \<Rightarrow> world \<Rightarrow> nat" where
  \<comment> \<open>the calls of \<open>continueConversation\<close> on the session object at \<open>a\<close> that have started
      and not returned\<close>
  "in_flight a w = length (filter (\<lambda>t. t_session t = a \<and> t_phase t \<noteq> Returned) (tasks w))"

definition tracksSpeaker :: "session \<Rightarrow> bool" where
  \<comment> \<open>\<open>currentSpeakingAgentId\<close> holds an agent id (it is neither unset nor \<open>null\<close>)\<close>
  "tracksSpeaker s = (case currentSpeakingAgentId s of Str _ \<Rightarrow> True | _ \<Rightarrow> False)"

definition awaitingAck :: "session \<Rightarrow> bool" where
  \<comment> \<open>\<open>waitingForAudioComplete\<close> is true\<close>
  "awaitingAck s = (waitingForAudioComplete s = Some True)"

definition sess_ok :: "session \<Rightarrow> bool" where
  \<comment> \<open>the invariant of one session object\<close>
  "sess_ok s = (tracksSpeaker s = awaitingAck s)"

definition heap_ok :: "world \<Rightarrow> bool" where
  \<comment> \<open>every session object satisfies it, whether \<open>sessions\<close> still names it or not\<close>
  "heap_ok w = (\<forall>a. sess_ok (heap w a))"

definition lastAgentSpeaker :: "message list \<Rightarrow> string option" where
  \<comment> \<open>the most recent agent speaker of a log, read from its start: the speaker of the
      last entry an agent wrote, if there is one\<close>
  "lastAgentSpeaker history =
     (if filter agentSpoke history = [] then None
      else aiId (last (filter agentSpoke history)))"

definition live :: "task \<Rightarrow> bool" where
  \<comment> \<open>the call has not returned\<close>
  "live t = (t_phase t \<noteq> Returned)"

definition uniq :: "world \<Rightarrow> bool" where
  \<comment> \<open>no two calls in flight share a session object\<close>
  "uniq w =
     (\<forall>i j. i < length (tasks w) \<and> j < length (tasks w) \<and> live (tasks w ! i)
          \<and> live (tasks w ! j) \<and> t_session (tasks w ! i) = t_session (tasks w ! j) \<longrightarrow> i = j)"

definition busy_ok :: "world \<Rightarrow> bool" where
  \<comment> \<open>the session object of a call in flight is processing, does not wait for a playback
      and is allocated\<close>
  "busy_ok w =
     (\<forall>i. i < length (tasks w) \<and> live (tasks w ! i) \<longrightarrow>
            isProcessing (heap w (t_session (tasks w ! i)))
          \<and> waitingForAudioComplete (heap w (t_session (tasks w ! i))) \<noteq> Some True
          \<and> t_session (tasks w ! i) < nextSession w)"

definition alloc_ok :: "world \<Rightarrow> bool" where
  \<comment> \<open>the session map names allocated objects only\<close>
  "alloc_ok w = (\<forall>sid a. sessions w sid = Some a \<longrightarrow> a < nextSession w)"

definition excl :: "world \<Rightarrow> bool" where
  "excl w = (uniq w \<and> busy_ok w \<and> alloc_ok w)"

definition same_core :: "world \<Rightarrow> world \<Rightarrow> bool" where
  \<comment> \<open>two states with the same calls, session objects and session map\<close>
  "same_core w w' =
     (tasks w' = tasks w \<and> heap w' = heap w \<and> sessions w' = sessions w
      \<and> nextSession w' = nextSession w)"

definition returns :: "nat \<Rightarrow> world \<Rightarrow> world \<Rightarrow> bool" where
  \<comment> \<open>from \<open>w\<close> to \<open>w'\<close> the call \<open>tid\<close> has returned and has written to no session object
      but its own\<close>
  "returns tid w w' =
     (tasks w' = (tasks w)[tid := (tasks w ! tid)\<lparr>t_phase := Returned\<rparr>]
      \<and> (\<exists>s. heap w' = (heap w)(t_session (tasks w ! tid) := s))
      \<and> sessions w' = sessions w \<and> nextSession w' = nextSession w)"

definition stays :: "nat \<Rightarrow> world \<Rightarrow> world \<Rightarrow> bool" where
  \<comment> \<open>from \<open>w\<close> to \<open>w'\<close> the call \<open>tid\<close> has moved to its next \<open>await\<close> and has written to
      no session object\<close>
  "stays tid w w' =
     ((\<exists>p. p \<noteq> Returned \<and> tasks w' = (tasks w)[tid := (tasks w ! tid)\<lparr>t_phase := p\<rparr>])
      \<and> heap w' = heap w \<and> sessions w' = sessions w \<and> nextSession w' = nextSession w)"

fun noStreamError :: "action \<Rightarrow> bool" where
  \<comment> \<open>any event but the failure of a stream\<close>
  "noStreamError (StreamError tid msg) = False"
| "noStreamError x = True"

section \<open>Example data\<close>

text \<open>A roster of two agents, a session started with it, and the runs the examples use.\<close>

definition alice :: agent where
  "alice = \<lparr>a_id = ''Alice_Coach'', a_name = ''Alice'', designation = ''Coach'',
     personalities = ''kind'', gender = ''female''\<rparr>"

definition bob :: agent where
  "bob = \<lparr>a_id = ''Bob_Manager'', a_name = ''Bob'', designation = ''Manager'',
     personalities = ''stern'', gender = ''male''\<rparr>"

definition said :: "string \<Rightarrow> message" where
  "said a = \<lparr>role = ''assistant'', content = ''Hi'', aiId = Some a\<rparr>"

definition labelledReply :: string where
  \<comment> \<open>\<open>"AGENT:Alice_Coach\n[Alice - Alice_Coach]: Good job"\<close>\<close>
  "labelledReply = ''AGENT:Alice_Coach'' @ [CHR 0x0A] @ ''[Alice - Alice_Coach]: Good job''"

definition started :: "action list" where
  \<comment> \<open>session \<open>s1\<close> is created with the roster, its sink at address 7; the timer of
      createSession fires and the first turn asks for a decision\<close>
  "started = [CreateSession ''s1'' ''standup'' ''Mahesh'' ''Dev'' 7 7 7,
              AgentsGenerated 0 (Inr [alice, bob]), TimerFires]"

definition streamingAlice :: world where
  \<comment> \<open>the provider's call fails, the fallback picks the first agent without a text, and
      the turn waits for the stream of her utterance\<close>
  "streamingAlice = run (started @ [DecisionText 0 None]) (init_world True)"

definition awaitingAlice :: world where
  \<comment> \<open>the stream completes, the connection opens: the turn is over and the session waits
      for the client to acknowledge the playback\<close>
  "awaitingAlice = run [StreamChunk 0 ''Hello'', StreamComplete 0, TtsOpen 0] streamingAlice"

definition deletedInFlight :: world where
  \<comment> \<open>the session is deleted while the stream of the utterance is running\<close>
  "deletedInFlight = run [StreamChunk 0 ''Hello'', DeleteSession ''s1''] streamingAlice"

definition userInterrupts :: "action list" where
  \<comment> \<open>a user message arrives while Alice's utterance is streaming\<close>
  "userInterrupts = started @ [DecisionText 0 None, StreamChunk 0 ''Hello'',
                                UserMessage ''s1'' ''hi'', StreamChunk 0 '' there'']"

section \<open>Properties of the parser and of the fallback\<close>

lemma find_rev_filter:
  "find P (rev xs) = (if filter P xs = [] then None else Some (last (filter P xs)))"
  by (induction xs rule: rev_induct) simp_all

lemma findIndex_first:
  "i < length xs \<Longrightarrow> P (xs ! i) \<Longrightarrow> (\<forall>j<i. \<not> P (xs ! j)) \<Longrightarrow> findIndex P xs = int i"
proof (induction xs arbitrary: i)
  case Nil
  then show ?case by simp
next
  case (Cons x xs)
  show ?case
  proof (cases i)
    case 0
    with Cons.prems show ?thesis by simp
  next
    case (Suc k)
    with Cons.prems have nx: "\<not> P x" by auto
    have "findIndex P xs = int k"
    proof (rule Cons.IH)
      show "k < length xs" using Cons.prems Suc by simp
      show "P (xs ! k)" using Cons.prems Suc by simp
      show "\<forall>j<k. \<not> P (xs ! j)"
      proof (intro allI impI)
        fix j assume "j < k"
        then have "Suc j < i" using Suc by simp
        with Cons.prems have "\<not> P ((x # xs) ! Suc j)" by blast
        then show "\<not> P (xs ! j)" by simp
      qed
    qed
    with nx Suc show ?thesis by (simp add: Let_def)
  qed
qed

lemma findIndex_none: "(\<forall>x\<in>set xs. \<not> P x) \<Longrightarrow> findIndex P xs = -1"
  by (induction xs) (simp_all add: Let_def)

lemma agentSpoke_last:
  "filter agentSpoke h \<noteq> [] \<Longrightarrow> agentSpoke (last (filter agentSpoke h))"
proof -
  assume a: "filter agentSpoke h \<noteq> []"
  then have "last (filter agentSpoke h) \<in> set (filter agentSpoke h)" by (rule last_in_set)
  then show ?thesis by simp
qed

text \<open>
  Claim C7, as the code has it. For an empty roster \<open>fallbackDecision\<close> returns the user's
  turn, with no text. For every log and every roster that is not empty it returns no text and
  no end flag, and its speaker is: the first roster entry when no agent has spoken in the log;
  the entry after the first roster position of the most recent agent speaker, wrapping at the
  end of the roster, when that speaker is in the roster; the first roster entry when the most
  recent agent speaker is not in the roster.
\<close>

theorem fallback_round_robin:
  "fallbackDecision [] history = mkDecision ''user'' None False
   \<and> (ags \<noteq> [] \<longrightarrow>
        response (fallbackDecision ags history) = None
      \<and> \<not> shouldEnd (fallbackDecision ags history)
      \<and> (lastAgentSpeaker history = None \<longrightarrow>
            speaker (fallbackDecision ags history) = a_id (ags ! 0))
      \<and> (\<forall>l i. lastAgentSpeaker history = Some l \<and> i < length ags \<and> a_id (ags ! i) = l
                \<and> (\<forall>j<i. a_id (ags ! j) \<noteq> l) \<longrightarrow>
            speaker (fallbackDecision ags history) = a_id (ags ! ((i + 1) mod length ags)))
      \<and> (\<forall>l. lastAgentSpeaker history = Some l \<and> l \<notin> set (map a_id ags) \<longrightarrow>
            speaker (fallbackDecision ags history) = a_id (ags ! 0)))"
proof (intro conjI impI allI)
  show "fallbackDecision [] history = mkDecision ''user'' None False"
    by (simp add: fallbackDecision_def)
next
  assume "ags \<noteq> []"
  then show "response (fallbackDecision ags history) = None"
    by (simp add: fallbackDecision_def mkDecision_def Let_def split: option.splits)
next
  assume "ags \<noteq> []"
  then show "\<not> shouldEnd (fallbackDecision ags history)"
    by (simp add: fallbackDecision_def mkDecision_def Let_def split: option.splits)
next
  assume "ags \<noteq> []" and "lastAgentSpeaker history = None"
  then show "speaker (fallbackDecision ags history) = a_id (ags ! 0)"
    using agentSpoke_last [of history]
    by (auto simp: fallbackDecision_def mkDecision_def lastAgentSpeaker_def find_rev_filter
        agentSpoke_def split: if_splits)
next
  fix l i
  assume ne: "ags \<noteq> []"
    and h: "lastAgentSpeaker history = Some l \<and> i < length ags \<and> a_id (ags ! i) = l
            \<and> (\<forall>j<i. a_id (ags ! j) \<noteq> l)"
  from h have f: "filter agentSpoke history \<noteq> []"
    and l: "aiId (last (filter agentSpoke history)) = Some l"
    by (auto simp: lastAgentSpeaker_def split: if_splits)
  have fi: "findIndex (\<lambda>a. a_id a = l) ags = int i"
    using h by (intro findIndex_first) auto
  have "(int i + 1) mod int (length ags) = int ((i + 1) mod length ags)"
    by (simp add: zmod_int ac_simps)
  then show "speaker (fallbackDecision ags history) = a_id (ags ! ((i + 1) mod length ags))"
    using ne f l fi by (simp add: fallbackDecision_def mkDecision_def find_rev_filter Let_def)
next
  fix l
  assume ne: "ags \<noteq> []"
    and h: "lastAgentSpeaker history = Some l \<and> l \<notin> set (map a_id ags)"
  from h have f: "filter agentSpoke history \<noteq> []"
    and l: "aiId (last (filter agentSpoke history)) = Some l"
    by (auto simp: lastAgentSpeaker_def split: if_splits)
  have fi: "findIndex (\<lambda>a. a_id a = l) ags = -1"
    using h by (intro findIndex_none) auto
  show "speaker (fallbackDecision ags history) = a_id (ags ! 0)"
    using ne f l fi by (simp add: fallbackDecision_def mkDecision_def find_rev_filter Let_def)
qed

text \<open>
  The theorem at the roster of Alice and Bob: after Bob the turn wraps to Alice; with an
  empty log Alice opens; after a speaker who is not in the roster Alice is chosen.
\<close>

theorem fallback_round_robin_witness:
  "[alice, bob] \<noteq> []
   \<and> lastAgentSpeaker [said ''Bob_Manager''] = Some ''Bob_Manager''
   \<and> (1::nat) < length [alice, bob] \<and> a_id ([alice, bob] ! 1) = ''Bob_Manager''
   \<and> a_id ([alice, bob] ! 0) \<noteq> ''Bob_Manager''
   \<and> speaker (fallbackDecision [alice, bob] [said ''Bob_Manager'']) = ''Alice_Coach''
   \<and> lastAgentSpeaker [] = None
   \<and> speaker (fallbackDecision [alice, bob] []) = ''Alice_Coach''
   \<and> lastAgentSpeaker [said ''Zed_Guest''] = Some ''Zed_Guest''
   \<and> ''Zed_Guest'' \<notin> set (map a_id [alice, bob])
   \<and> speaker (fallbackDecision [alice, bob] [said ''Zed_Guest'']) = ''Alice_Coach''"
proof -
  have ne: "[alice, bob] \<noteq> []" by simp
  have a: "lastAgentSpeaker [said ''Bob_Manager''] = Some ''Bob_Manager''"
    by (simp add: lastAgentSpeaker_def said_def agentSpoke_def)
  have b: "(1::nat) < length [alice, bob] \<and> a_id ([alice, bob] ! 1) = ''Bob_Manager''
      \<and> a_id ([alice, bob] ! 0) \<noteq> ''Bob_Manager''"
    by (simp add: alice_def bob_def)
  have c: "lastAgentSpeaker [] = None" by (simp add: lastAgentSpeaker_def)
  have d: "lastAgentSpeaker [said ''Zed_Guest''] = Some ''Zed_Guest''"
    by (simp add: lastAgentSpeaker_def said_def agentSpoke_def)
  have e: "''Zed_Guest'' \<notin> set (map a_id [alice, bob])" by (simp add: alice_def bob_def)
  have r1: "speaker (fallbackDecision [alice, bob] [said ''Bob_Manager'']) = ''Alice_Coach''"
    using fallback_round_robin [of "[said ''Bob_Manager'']" "[alice, bob]"] ne a b
    by (auto simp: alice_def)
  have r2: "speaker (fallbackDecision [alice, bob] []) = ''Alice_Coach''"
    using fallback_round_robin [of "[]" "[alice, bob]"] ne c by (simp add: alice_def)
  have r3: "speaker (fallbackDecision [alice, bob] [said ''Zed_Guest'']) = ''Alice_Coach''"
    using fallback_round_robin [of "[said ''Zed_Guest'']" "[alice, bob]"] ne d e
    by (simp add: alice_def)
  show ?thesis using ne a b c d e r1 r2 r3 by blast
qed

text \<open>
  Claim C7 as it is written fails for the empty roster: the fallback then names the user,
  who is no roster entry.
\<close>

theorem fallback_empty_roster_counterexample:
  "speaker (fallbackDecision [] []) = ''user''
   \<and> speaker (fallbackDecision [] []) \<notin> set (map a_id [])"
  by (simp add: fallbackDecision_def mkDecision_def)

lemma labelledReply_facts:
  "trim labelledReply = labelledReply"
  "\<not> startsWith ''END:'' labelledReply"
  "labelledReply \<noteq> ''END''"
  "\<not> userTurnPattern labelledReply"
  "toUpperCase labelledReply \<noteq> ''USER''"
  "toUpperCase labelledReply \<noteq> ''USER:''"
  "agentMatch labelledReply = Some (''Alice_Coach'', ''[Alice - Alice_Coach]: Good job'')"
  "\<not> includes_str (CHR 0x0A # ''END:'') labelledReply"
  by code_simp+

lemma labelledReply_body_facts:
  "trim ''Alice_Coach'' = ''Alice_Coach''"
  "cleanAgentResponse ''[Alice - Alice_Coach]: Good job'' = ''Good job''"
  "trim (toUpperCase ''Good job'') \<noteq> ''USER''"
  "trim (toUpperCase ''Good job'') \<noteq> ''USER:''"
  "\<not> includes_str ''END:'' ''Good job''"
  by code_simp+

text \<open>
  Claim C8. Against any roster that has an agent with the id \<open>Alice_Coach\<close>, and with any
  log, the text \<open>AGENT:Alice_Coach\<close>, a line feed, \<open>[Alice - Alice_Coach]: Good job\<close> is parsed
  to the decision that Alice_Coach speaks the text \<open>Good job\<close>: the label in square brackets
  is gone from the body.
\<close>

theorem label_annotation_stripped:
  "''Alice_Coach'' \<in> set (map a_id ags) \<Longrightarrow>
   parseResponse ags history labelledReply = mkDecision ''Alice_Coach'' (Some ''Good job'') False"
  unfolding parseResponse_def Let_def labelledReply_facts
  by (simp only: labelledReply_facts labelledReply_body_facts Let_def if_False if_True
      option.case prod.case simp_thms list.distinct)

theorem label_annotation_stripped_witness:
  "''Alice_Coach'' \<in> set (map a_id [alice, bob])
   \<and> parseResponse [alice, bob] [] labelledReply
       = mkDecision ''Alice_Coach'' (Some ''Good job'') False"
proof -
  have h: "''Alice_Coach'' \<in> set (map a_id [alice, bob])" by (simp add: alice_def)
  show ?thesis using h label_annotation_stripped [OF h, of "[]"] by simp
qed

section \<open>Properties of the speech renderer\<close>

lemma deliverAudio_rest:
  "\<not> firstAudioChunk c \<Longrightarrow> deliverAudio c bs = (map (AiAudioChunk (c_agentId c)) bs, c)"
  by (induction bs) (simp_all add: onAudioChunk_def)

text \<open>
  Claim C9 on the code. The header has 44 bytes and declares PCM (format 1), one channel,
  48000 Hz, 16 bits per sample and a block align of 2, but its byte-rate field (bytes 28 to 31,
  \<open>00 ee 02 00\<close>) holds 192000, not the 96000 = 48000 * 1 * (16 div 8) of one channel of 16-bit
  samples at 48 kHz, which is also what the comment of the source says the field holds.
\<close>

theorem wav_header_byte_rate:
  "length createWavHeader = 44
   \<and> le_value (field 20 2 createWavHeader) = 1
   \<and> le_value (field 22 2 createWavHeader) = 1
   \<and> le_value (field 24 4 createWavHeader) = 48000
   \<and> le_value (field 34 2 createWavHeader) = 16
   \<and> le_value (field 32 2 createWavHeader) = 1 * (16 div 8)
   \<and> le_value (field 4 4 createWavHeader) = 0
   \<and> le_value (field 40 4 createWavHeader) = 0
   \<and> le_value (field 28 4 createWavHeader) = 192000
   \<and> le_value (field 28 4 createWavHeader) \<noteq> 48000 * 1 * (16 div 8)"
  by (simp add: createWavHeader_def field_def le_value_def)

text \<open>
  The framing of the chunks, which the code does as the claim says: on a fresh connection
  the first chunk of an utterance is announced once and carries the header before its
  payload, and every later chunk is handed on as it came.
\<close>

theorem header_on_first_chunk_only:
  "fst (deliverAudio (newConn a agentId m) (b # bs)) =
     [TtsFirstAudio agentId, AiAudioChunk agentId (createWavHeader @ b)]
       @ map (AiAudioChunk agentId) bs"
  by (simp add: onAudioChunk_def newConn_def deliverAudio_rest)

lemma all_space_trim: "all_space t \<Longrightarrow> trim t = []"
proof -
  assume "all_space t"
  then have "\<forall>x\<in>set t. is_space x" by (simp add: all_space_def list_all_iff)
  then have d: "dropWhile is_space t = []" by (simp only: dropWhile_eq_Nil_conv)
  show ?thesis unfolding trim_def d by simp
qed

lemma pushMessage_frame [simp]:
  "conns (pushMessage sid msg w) = conns w"
  "sent (pushMessage sid msg w) = sent w"
  "tasks (pushMessage sid msg w) = tasks w"
  "heap (pushMessage sid msg w) = heap w"
  by (simp_all add: pushMessage_def split: option.splits)

text \<open>
  Claim C10. With no text (\<open>null\<close>) the renderer completes at once. With an empty text or
  only whitespace it does too, and then the turn, going on from the text \<open>t\<close>, opens no
  connection and hands the sinks exactly the end of the audio and the end of the response
  (and the end of the conversation, when the decision asks for it): no first-audio event and
  no audio chunk. As no connection exists for the utterance, none can follow later.
\<close>

theorem blank_text_skips_renderer:
  "streamTextToSpeech_start None dg = TtsSkipped
   \<and> (all_space t \<longrightarrow>
        streamTextToSpeech_start (Some t) dg = TtsSkipped
      \<and> conns (afterText tid ag d t w) = conns w
      \<and> sent (afterText tid ag d t w) =
          sent w
          @ [(onStreamChunk (heap w (t_session (tasks w ! tid))), AiAudioEnd (speaker d)),
             (onStreamComplete (heap w (t_session (tasks w ! tid))),
                AiResponseEnd (speaker d) t (personalityOf ag))]
          @ (if speaker d = ''end'' \<or> shouldEnd d
             then [(onStreamComplete (heap w (t_session (tasks w ! tid))), ConversationEnded)]
             else []))"
proof (intro conjI impI)
  show "streamTextToSpeech_start None dg = TtsSkipped"
    by (simp add: streamTextToSpeech_start_def)
next
  assume "all_space t"
  then show "streamTextToSpeech_start (Some t) dg = TtsSkipped"
    by (simp add: streamTextToSpeech_start_def all_space_trim)
next
  assume "all_space t"
  then have s: "streamTextToSpeech_start (Some t) (deepgram w) = TtsSkipped"
    by (simp add: streamTextToSpeech_start_def all_space_trim)
  show "conns (afterText tid ag d t w) = conns w"
    by (simp add: afterText_def s Let_def finishTurn_def setPhase_def updSession_def emit_def
        addAssistantMessage_def)
next
  assume "all_space t"
  then have s: "streamTextToSpeech_start (Some t) (deepgram w) = TtsSkipped"
    by (simp add: streamTextToSpeech_start_def all_space_trim)
  show "sent (afterText tid ag d t w) =
          sent w
          @ [(onStreamChunk (heap w (t_session (tasks w ! tid))), AiAudioEnd (speaker d)),
             (onStreamComplete (heap w (t_session (tasks w ! tid))),
                AiResponseEnd (speaker d) t (personalityOf ag))]
          @ (if speaker d = ''end'' \<or> shouldEnd d
             then [(onStreamComplete (heap w (t_session (tasks w ! tid))), ConversationEnded)]
             else [])"
    by (simp add: afterText_def s Let_def finishTurn_def setPhase_def updSession_def emit_def
        addAssistantMessage_def)
qed

text \<open>
  The theorem where Alice's stream has delivered nothing but two spaces: the sink of the
  session (address 7) gets the end of the audio and the end of the response, and no
  connection is made.
\<close>

theorem blank_text_skips_renderer_witness:
  "all_space ''  ''
   \<and> streamTextToSpeech_start (Some ''  '') True = TtsSkipped
   \<and> conns (afterText 0 alice (mkDecision ''Alice_Coach'' None False) ''  '' streamingAlice)
       = conns streamingAlice
   \<and> sent (afterText 0 alice (mkDecision ''Alice_Coach'' None False) ''  '' streamingAlice)
       = sent streamingAlice
         @ [(7, AiAudioEnd ''Alice_Coach''),
            (7, AiResponseEnd ''Alice_Coach'' ''  '' ''Alice (Coach)'')]"
proof -
  have h: "all_space ''  ''" by (simp add: all_space_def is_space_def)
  have cb: "(onStreamChunk (heap streamingAlice (t_session (tasks streamingAlice ! 0))),
             onStreamComplete (heap streamingAlice (t_session (tasks streamingAlice ! 0))))
            = (7, 7)"
    by code_simp
  show ?thesis
    using h cb
      blank_text_skips_renderer [of True "''  ''" 0 alice "mkDecision ''Alice_Coach'' None False"
        streamingAlice]
    by (simp add: mkDecision_def personalityOf_def alice_def)
qed

section \<open>Properties of the session turn controller\<close>

subsection \<open>The tracked speaker and the wait for the acknowledgement\<close>

lemma heap_ok_frame [simp]:
  "heap_ok (emit cb e w) = heap_ok w"
  "heap_ok (logMsg l m w) = heap_ok w"
  "heap_ok (setPhase tid p w) = heap_ok w"
  "heap_ok (updConn c f w) = heap_ok w"
  "heap_ok (pushMessage sid msg w) = heap_ok w"
  "heap_ok (addUserMessage sid body w) = heap_ok w"
  "heap_ok (addAssistantMessage sid body ag w) = heap_ok w"
  "heap_ok (initializeSession sid x y z w) = heap_ok w"
  "heap_ok (clearSession sid w) = heap_ok w"
  "heap_ok (w\<lparr>conns := cs\<rparr>) = heap_ok w"
  "heap_ok (w\<lparr>tasks := ts\<rparr>) = heap_ok w"
  "heap_ok (w\<lparr>timers := tm\<rparr>) = heap_ok w"
  "heap_ok (w\<lparr>creating := cr\<rparr>) = heap_ok w"
  "heap_ok (w\<lparr>sessions := ss\<rparr>) = heap_ok w"
  "heap_ok (w\<lparr>sent := sn\<rparr>) = heap_ok w"
  by (simp_all add: heap_ok_def emit_def logMsg_def setPhase_def updConn_def pushMessage_def
      addUserMessage_def addAssistantMessage_def initializeSession_def clearSession_def
      split: option.splits)

lemma heap_ok_upd:
  "heap_ok w \<Longrightarrow> sess_ok (g (heap w a)) \<Longrightarrow> heap_ok (updSession a g w)"
  by (simp add: heap_ok_def updSession_def)

lemma heap_ok_at: "heap_ok w \<Longrightarrow> sess_ok (heap w a)"
  by (simp add: heap_ok_def)

lemma sess_ok_isProcessing: "sess_ok s \<Longrightarrow> sess_ok (s\<lparr>isProcessing := b\<rparr>)"
  by (simp add: sess_ok_def tracksSpeaker_def awaitingAck_def)

lemma sess_ok_waiting:
  "sess_ok (s\<lparr>waitingForAudioComplete := Some True, currentSpeakingAgentId := Str x\<rparr>)"
  by (simp add: sess_ok_def tracksSpeaker_def awaitingAck_def)

lemma sess_ok_reset:
  "sess_ok (s\<lparr>waitingForAudioComplete := Some False, currentSpeakingAgentId := Null,
      isProcessing := False\<rparr>)"
  by (simp add: sess_ok_def tracksSpeaker_def awaitingAck_def)

lemma sess_ok_newSession: "sess_ok (newSession p ags)"
  by (simp add: newSession_def sess_ok_def tracksSpeaker_def awaitingAck_def)

lemma heap_ok_idle: "heap_ok w \<Longrightarrow> heap_ok (updSession a (\<lambda>s. s\<lparr>isProcessing := b\<rparr>) w)"
  by (rule heap_ok_upd) (simp_all add: heap_ok_at sess_ok_isProcessing)

lemma heap_ok_finishTurn: "heap_ok w \<Longrightarrow> heap_ok (finishTurn tid ag d full w)"
  unfolding finishTurn_def Let_def
  by (simp add: heap_ok_upd sess_ok_waiting sess_ok_reset)

lemma heap_ok_afterText: "heap_ok w \<Longrightarrow> heap_ok (afterText tid ag d full w)"
  unfolding afterText_def Let_def
  by (cases "streamTextToSpeech_start (Some full) (deepgram w)")
     (simp_all add: heap_ok_finishTurn)

lemma heap_ok_afterDecision: "heap_ok w \<Longrightarrow> heap_ok (afterDecision tid d w)"
  unfolding afterDecision_def Let_def
  by (simp add: heap_ok_afterText heap_ok_idle split: option.splits)

lemma heap_ok_continueConversation: "heap_ok w \<Longrightarrow> heap_ok (continueConversation sid w)"
  unfolding continueConversation_def Let_def
  by (simp add: heap_ok_idle split: option.splits)

lemma heap_ok_createSession_resume: "heap_ok w \<Longrightarrow> heap_ok (createSession_resume k res w)"
  unfolding createSession_resume_def Let_def
  by (auto simp: heap_ok_def sess_ok_newSession emit_def logMsg_def
      split: option.splits sum.splits)

lemma heap_ok_step: "heap_ok w \<Longrightarrow> heap_ok (step x w)"
proof (cases x)
  case (CreateSession sid scen uname urole cb1 cb2 cb3)
  then show "heap_ok w \<Longrightarrow> heap_ok (step x w)"
    by (simp add: createSession_start_def Let_def)
next
  case (AgentsGenerated k res)
  then show "heap_ok w \<Longrightarrow> heap_ok (step x w)" by (simp add: heap_ok_createSession_resume)
next
  case TimerFires
  then show "heap_ok w \<Longrightarrow> heap_ok (step x w)"
    by (simp add: timer_fires_def heap_ok_continueConversation split: list.splits)
next
  case (UserMessage sid body)
  then show "heap_ok w \<Longrightarrow> heap_ok (step x w)"
    by (simp add: processUserMessage_def heap_ok_continueConversation split: option.splits)
next
  case (AudioPlaybackComplete sid v)
  then show "heap_ok w \<Longrightarrow> heap_ok (step x w)"
    by (simp add: onAudioPlaybackComplete_def Let_def heap_ok_upd sess_ok_reset
        split: option.splits)
next
  case (DeleteSession sid)
  then show "heap_ok w \<Longrightarrow> heap_ok (step x w)" by (simp add: deleteSession_def)
next
  case (DecisionText tid r)
  then show "heap_ok w \<Longrightarrow> heap_ok (step x w)"
    by (simp add: decision_resume_def Let_def heap_ok_afterDecision split: phase.splits)
next
  case (StreamChunk tid c)
  then show "heap_ok w \<Longrightarrow> heap_ok (step x w)"
    by (simp add: stream_chunk_def Let_def split: phase.splits)
next
  case (StreamComplete tid)
  then show "heap_ok w \<Longrightarrow> heap_ok (step x w)"
    by (simp add: stream_complete_def heap_ok_afterText split: phase.splits)
next
  case (StreamError tid msg)
  then show "heap_ok w \<Longrightarrow> heap_ok (step x w)"
    by (simp add: stream_error_def Let_def heap_ok_afterText heap_ok_idle split: phase.splits)
next
  case (TtsOpen tid)
  then show "heap_ok w \<Longrightarrow> heap_ok (step x w)"
    by (simp add: tts_open_def heap_ok_finishTurn split: phase.splits)
next
  case (TtsOpenFail tid)
  then show "heap_ok w \<Longrightarrow> heap_ok (step x w)"
    by (simp add: tts_open_fail_def heap_ok_finishTurn split: phase.splits)
next
  case (TtsAudio c b)
  then show "heap_ok w \<Longrightarrow> heap_ok (step x w)"
    by (simp add: tts_audio_def Let_def split: prod.splits)
next
  case (TtsFlushed c)
  then show "heap_ok w \<Longrightarrow> heap_ok (step x w)" by (simp add: tts_complete_def Let_def)
next
  case (TtsTimeout c)
  then show "heap_ok w \<Longrightarrow> heap_ok (step x w)" by (simp add: tts_complete_def Let_def)
next
  case (TtsError c)
  then show "heap_ok w \<Longrightarrow> heap_ok (step x w)" by (simp add: tts_error_def)
next
  case (TaskThrows tid msg)
  then show "heap_ok w \<Longrightarrow> heap_ok (step x w)"
    by (simp add: task_throws_def Let_def heap_ok_idle)
qed

lemma heap_ok_run: "heap_ok w \<Longrightarrow> heap_ok (run xs w)"
  by (induction xs arbitrary: w) (simp_all add: heap_ok_step)

lemma heap_ok_init: "heap_ok (init_world dg)"
  by (simp add: heap_ok_def init_world_def emptySession_def sess_ok_def tracksSpeaker_def
      awaitingAck_def)

text \<open>
  Claim C2. After any run from start-up (any sequence of session creations, triggers,
  user messages, acknowledgements, deletions and provider answers, the failures among them),
  every session object, whether the session map still names it or not, tracks a speaker
  (\<open>currentSpeakingAgentId\<close> is an agent id, neither unset nor \<open>null\<close>) if and only if
  \<open>waitingForAudioComplete\<close> is true. And every event of the controller preserves the
  equivalence, from any state in which all session objects have it.
\<close>

theorem speaker_tracked_iff_awaiting_ack:
  "tracksSpeaker (heap (run xs (init_world dg)) a) = awaitingAck (heap (run xs (init_world dg)) a)
   \<and> (heap_ok w \<longrightarrow> heap_ok (step x w))"
  using heap_ok_run [OF heap_ok_init, of xs dg] heap_ok_step [of w x]
  by (simp add: heap_ok_def sess_ok_def)

text \<open>
  The theorem where the session waits for Alice's playback and the acknowledgement comes:
  before it the session object tracks Alice and waits, after it neither.
\<close>

theorem speaker_tracked_iff_awaiting_ack_witness:
  "heap_ok awaitingAlice
   \<and> heap_ok (step (AudioPlaybackComplete ''s1'' (Str ''Alice_Coach'')) awaitingAlice)
   \<and> tracksSpeaker (heap awaitingAlice 0) \<and> awaitingAck (heap awaitingAlice 0)
   \<and> \<not> tracksSpeaker (heap (step (AudioPlaybackComplete ''s1'' (Str ''Alice_Coach'')) awaitingAlice) 0)
   \<and> \<not> awaitingAck (heap (step (AudioPlaybackComplete ''s1'' (Str ''Alice_Coach'')) awaitingAlice) 0)"
proof -
  have h: "heap_ok awaitingAlice"
    unfolding awaitingAlice_def streamingAlice_def by (intro heap_ok_run heap_ok_init)
  have e: "(tracksSpeaker (heap awaitingAlice 0), awaitingAck (heap awaitingAlice 0),
            tracksSpeaker (heap (step (AudioPlaybackComplete ''s1'' (Str ''Alice_Coach'')) awaitingAlice) 0),
            awaitingAck (heap (step (AudioPlaybackComplete ''s1'' (Str ''Alice_Coach'')) awaitingAlice) 0))
           = (True, True, False, False)"
    by code_simp
  show ?thesis
    using h e
      speaker_tracked_iff_awaiting_ack [of "[]" True 0 awaitingAlice
        "AudioPlaybackComplete ''s1'' (Str ''Alice_Coach'')"]
    by simp
qed

subsection \<open>Acknowledgements of the playback\<close>

text \<open>
  Claim C6. Processing the same acknowledgement a second time changes nothing but the log
  of the logger: the sessions, their flags, the conversation logs, the events sent and the
  pending timers (so no further turn trigger) stay as the first left them. An
  acknowledgement that names another agent than the one the session tracks changes nothing
  but the log of the logger either.
\<close>

theorem playback_ack_idempotent:
  "onAudioPlaybackComplete sid v (onAudioPlaybackComplete sid v w)
     \<lparr>logs := logs (onAudioPlaybackComplete sid v w)\<rparr> = onAudioPlaybackComplete sid v w
   \<and> (\<forall>a. sessions w sid = Some a \<and> currentSpeakingAgentId (heap w a) \<noteq> v \<longrightarrow>
        (onAudioPlaybackComplete sid v w)\<lparr>logs := logs w\<rparr> = w)"
  by (auto simp: onAudioPlaybackComplete_def Let_def updSession_def logMsg_def
      split: option.splits)

text \<open>
  The theorem where the session waits for Alice's playback: naming Bob changes nothing; the
  first acknowledgement naming Alice schedules the one trigger, the second none.
\<close>

theorem playback_ack_idempotent_witness:
  "sessions awaitingAlice ''s1'' = Some 0
   \<and> currentSpeakingAgentId (heap awaitingAlice 0) = Str ''Alice_Coach''
   \<and> currentSpeakingAgentId (heap awaitingAlice 0) \<noteq> Str ''Bob_Manager''
   \<and> (onAudioPlaybackComplete ''s1'' (Str ''Bob_Manager'') awaitingAlice)
         \<lparr>logs := logs awaitingAlice\<rparr> = awaitingAlice
   \<and> timers awaitingAlice = []
   \<and> timers (onAudioPlaybackComplete ''s1'' (Str ''Alice_Coach'') awaitingAlice) = [''s1'']
   \<and> onAudioPlaybackComplete ''s1'' (Str ''Alice_Coach'')
         (onAudioPlaybackComplete ''s1'' (Str ''Alice_Coach'') awaitingAlice)
         \<lparr>logs := logs (onAudioPlaybackComplete ''s1'' (Str ''Alice_Coach'') awaitingAlice)\<rparr>
       = onAudioPlaybackComplete ''s1'' (Str ''Alice_Coach'') awaitingAlice"
proof -
  have e: "(sessions awaitingAlice ''s1'', currentSpeakingAgentId (heap awaitingAlice 0),
            timers awaitingAlice,
            timers (onAudioPlaybackComplete ''s1'' (Str ''Alice_Coach'') awaitingAlice))
           = (Some 0, Str ''Alice_Coach'', [], [''s1''])"
    by code_simp
  then have h: "sessions awaitingAlice ''s1'' = Some 0
     \<and> currentSpeakingAgentId (heap awaitingAlice 0) = Str ''Alice_Coach''
     \<and> currentSpeakingAgentId (heap awaitingAlice 0) \<noteq> Str ''Bob_Manager''
     \<and> timers awaitingAlice = []
     \<and> timers (onAudioPlaybackComplete ''s1'' (Str ''Alice_Coach'') awaitingAlice) = [''s1'']"
    by simp
  show ?thesis
    using h playback_ack_idempotent [of "''s1''" "Str ''Bob_Manager''" awaitingAlice]
      playback_ack_idempotent [of "''s1''" "Str ''Alice_Coach''" awaitingAlice]
    by blast
qed

subsection \<open>Deleted sessions\<close>

text \<open>
  Claim C5, as the code has it. After \<open>deleteSession\<close> the session map and the memory map
  have no entry for the id, and every later call for that id (a turn trigger, also the one a
  pending timer makes; an acknowledgement of the playback; a user message) changes nothing
  but the log of the logger and sends no event. The calls in flight are not cancelled: they
  keep the detached session object and its sinks, and the log entry they append late makes a
  new log for the id, which holds that entry only.
\<close>

theorem deleted_session_triggers_dropped:
  "sessions (deleteSession sid w) sid = None
   \<and> memories (deleteSession sid w) sid = None
   \<and> (continueConversation sid (deleteSession sid w))\<lparr>logs := logs (deleteSession sid w)\<rparr>
       = deleteSession sid w
   \<and> (onAudioPlaybackComplete sid v (deleteSession sid w))\<lparr>logs := logs (deleteSession sid w)\<rparr>
       = deleteSession sid w
   \<and> (processUserMessage sid m (deleteSession sid w))\<lparr>logs := logs (deleteSession sid w)\<rparr>
       = deleteSession sid w
   \<and> getMessages sid (addAssistantMessage sid c a (deleteSession sid w))
       = [\<lparr>role = ''assistant'', content = c, aiId = Some a\<rparr>]"
  by (simp add: deleteSession_def clearSession_def continueConversation_def
      onAudioPlaybackComplete_def processUserMessage_def logMsg_def getMessages_def
      addAssistantMessage_def pushMessage_def)

text \<open>
  Claim C5 as it is written fails. Session \<open>s1\<close> is deleted while Alice's utterance is
  streaming; both maps lose the entry. Then the stream completes, the TTS connection opens and
  a chunk of audio arrives: the detached session object is set to wait for the playback, its
  sink gets the end of the response, the first-audio event and the audio chunk, and the memory
  map has a log for \<open>s1\<close> again, holding the late entry.
\<close>

theorem deleted_session_counterexample:
  "(let w = run [StreamComplete 0, TtsOpen 0, TtsAudio 0 [1, 2]] deletedInFlight in
     (sessions deletedInFlight ''s1'', memories deletedInFlight ''s1'',
      waitingForAudioComplete (heap deletedInFlight 0),
      waitingForAudioComplete (heap w 0),
      drop (length (sent deletedInFlight)) (sent w), getMessages ''s1'' w))
   = (None, None, None, Some True,
      [(7, AiResponseEnd ''Alice_Coach'' ''Hello'' ''Alice (Coach)''),
       (7, TtsFirstAudio ''Alice_Coach''),
       (7, AiAudioChunk ''Alice_Coach'' (createWavHeader @ [1, 2]))],
      [\<lparr>role = ''assistant'', content = ''Hello'', aiId = Some ''Alice_Coach''\<rparr>])"
  by code_simp

subsection \<open>The end decision\<close>

text \<open>
  Claim C3 on the code. The provider answers \<open>END:\<close>, which is parsed to the decision
  \<open>speaker = end\<close>. The turn that waited for it looks the speaker up in the roster, finds no
  agent with the id \<open>end\<close>, writes an error to the logger, clears \<open>isProcessing\<close> and returns:
  no event reaches the sink, so no \<open>conversation_ended\<close>. The branch that sends it stands
  after that return.
\<close>

theorem end_decision_not_announced:
  "parseResponse [alice, bob] [] ''END:'' = mkDecision ''end'' None False
   \<and> (let w0 = run started (init_world True); w = step (DecisionText 0 (Some ''END:'')) w0 in
        (map t_phase (tasks w0), isProcessing (heap w0 0), sent w0,
         map t_phase (tasks w), isProcessing (heap w 0), waitingForAudioComplete (heap w 0),
         sent w, logs w))
       = ([AwaitDecision (Some 0)], True, [],
          [Returned], False, None, [], [(LError, ''Agent end not found'')])"
  by code_simp

subsection \<open>A stream that fails\<close>

text \<open>
  Claim C4 on the code. Alice's utterance is streaming and the log holds the system entry
  only. One chunk \<open>Hel\<close> arrives, then the stream fails. The error callback sends the error
  event and clears \<open>isProcessing\<close>, the service returns normally, and the turn goes on: the
  text received so far is appended to the log as Alice's utterance.
\<close>

theorem failed_stream_is_logged:
  "(let w = run [StreamChunk 0 ''Hel'', StreamError 0 ''network''] streamingAlice in
     (map t_phase (tasks streamingAlice), length (getMessages ''s1'' streamingAlice),
      drop 1 (getMessages ''s1'' w), drop (length (sent streamingAlice)) (sent w)))
   = ([AwaitStream alice (mkDecision ''Alice_Coach'' None False) [] []], 1,
      [\<lparr>role = ''assistant'', content = ''Hel'', aiId = Some ''Alice_Coach''\<rparr>],
      [(7, AiResponseChunk ''Alice_Coach'' ''Hel''),
       (7, ErrorEvent (Some ''Alice_Coach'') ''network'')])"
  by code_simp

subsection \<open>Triggers while a turn is running\<close>

text \<open>
  The guard of \<open>continueConversation\<close>: when the session is processing or waits for the
  playback, the call changes nothing but the log of the logger, where it leaves one warning.
\<close>

theorem busy_trigger_dropped:
  "sessions w sid = Some a \<and>
     (isProcessing (heap w a) \<or> waitingForAudioComplete (heap w a) = Some True) \<longrightarrow>
   (continueConversation sid w)\<lparr>logs := logs w\<rparr> = w
   \<and> (\<exists>m. logs (continueConversation sid w) = logs w @ [(LWarn, m)])"
  by (auto simp: continueConversation_def logMsg_def)

theorem busy_trigger_dropped_witness:
  "sessions awaitingAlice ''s1'' = Some 0
   \<and> waitingForAudioComplete (heap awaitingAlice 0) = Some True
   \<and> (continueConversation ''s1'' awaitingAlice)\<lparr>logs := logs awaitingAlice\<rparr> = awaitingAlice
   \<and> sessions streamingAlice ''s1'' = Some 0
   \<and> isProcessing (heap streamingAlice 0)
   \<and> (continueConversation ''s1'' streamingAlice)\<lparr>logs := logs streamingAlice\<rparr> = streamingAlice"
proof -
  have e: "(sessions awaitingAlice ''s1'', waitingForAudioComplete (heap awaitingAlice 0),
            sessions streamingAlice ''s1'', isProcessing (heap streamingAlice 0))
           = (Some 0, Some True, Some 0, True)"
    by code_simp
  then have h: "sessions awaitingAlice ''s1'' = Some 0
     \<and> waitingForAudioComplete (heap awaitingAlice 0) = Some True
     \<and> sessions streamingAlice ''s1'' = Some 0 \<and> isProcessing (heap streamingAlice 0)"
    by simp
  show ?thesis
    using h busy_trigger_dropped [of awaitingAlice "''s1''" 0]
      busy_trigger_dropped [of streamingAlice "''s1''" 0]
    by blast
qed

text \<open>
  Claim C1 on the code. Alice's utterance is streaming: one call of \<open>continueConversation\<close>
  is in flight on the session object. A chunk arrives and the stream fails. The error callback
  clears \<open>isProcessing\<close> although the call goes on (it appends the text and waits for the TTS
  connection to open), and \<open>waitingForAudioComplete\<close> is not set yet. A user message that
  arrives now passes the guard without a warning and starts a second call: two calls of
  \<open>continueConversation\<close> are in flight on the same session object.
\<close>

theorem two_turns_in_flight:
  "(let w1 = run [StreamChunk 0 ''Hel'', StreamError 0 ''network''] streamingAlice;
        w2 = step (UserMessage ''s1'' ''hello?'') w1
    in (in_flight 0 streamingAlice, in_flight 0 w1, isProcessing (heap w1 0),
        waitingForAudioComplete (heap w1 0),
        in_flight 0 w2, map t_sessionId (tasks w2), map t_session (tasks w2),
        map (\<lambda>t. t_phase t = Returned) (tasks w2)))
   = (1, 1, False, None, 2, [''s1'', ''s1''], [0, 0], [False, False])"
  by code_simp

subsection \<open>Without a failing stream, one turn at a time\<close>

lemma excl_same_core: "same_core w w' \<Longrightarrow> excl w \<Longrightarrow> excl w'"
  by (simp add: same_core_def excl_def uniq_def busy_ok_def alloc_ok_def)

lemma excl_returns:
  assumes e: "excl w" and r: "returns tid w w'"
    and tl: "tid < length (tasks w)" and lt: "live (tasks w ! tid)"
  shows "excl w'"
proof -
  from r obtain s where
    t: "tasks w' = (tasks w)[tid := (tasks w ! tid)\<lparr>t_phase := Returned\<rparr>]"
    and h: "heap w' = (heap w)(t_session (tasks w ! tid) := s)"
    and ss: "sessions w' = sessions w" and n: "nextSession w' = nextSession w"
    by (auto simp: returns_def)
  have len: "length (tasks w') = length (tasks w)" by (simp add: t)
  have lv: "\<And>i. i < length (tasks w) \<Longrightarrow> live (tasks w' ! i) \<Longrightarrow>
      i \<noteq> tid \<and> live (tasks w ! i) \<and> tasks w' ! i = tasks w ! i"
  proof -
    fix i
    assume "i < length (tasks w)" and "live (tasks w' ! i)"
    then show "i \<noteq> tid \<and> live (tasks w ! i) \<and> tasks w' ! i = tasks w ! i"
      by (cases "i = tid") (auto simp: t live_def)
  qed
  have other: "\<And>i. i < length (tasks w) \<Longrightarrow> live (tasks w ! i) \<Longrightarrow> i \<noteq> tid \<Longrightarrow>
      t_session (tasks w ! i) \<noteq> t_session (tasks w ! tid)"
    using e tl lt unfolding excl_def uniq_def busy_ok_def alloc_ok_def by blast
  show ?thesis
    unfolding excl_def uniq_def busy_ok_def alloc_ok_def
  proof (intro conjI allI impI)
    fix i j
    assume a: "i < length (tasks w') \<and> j < length (tasks w') \<and> live (tasks w' ! i)
      \<and> live (tasks w' ! j) \<and> t_session (tasks w' ! i) = t_session (tasks w' ! j)"
    then have "i < length (tasks w) \<and> j < length (tasks w) \<and> live (tasks w ! i)
       \<and> live (tasks w ! j) \<and> t_session (tasks w ! i) = t_session (tasks w ! j)"
      using lv [of i] lv [of j] len by simp
    then show "i = j" using e unfolding excl_def uniq_def busy_ok_def alloc_ok_def by blast
  next
    fix i
    assume a: "i < length (tasks w') \<and> live (tasks w' ! i)"
    then have b: "i < length (tasks w) \<and> i \<noteq> tid \<and> live (tasks w ! i)
        \<and> tasks w' ! i = tasks w ! i"
      using lv [of i] len by simp
    then have c: "t_session (tasks w ! i) \<noteq> t_session (tasks w ! tid)"
      using other by blast
    have d: "isProcessing (heap w (t_session (tasks w ! i)))
          \<and> waitingForAudioComplete (heap w (t_session (tasks w ! i))) \<noteq> Some True
          \<and> t_session (tasks w ! i) < nextSession w"
      using e b unfolding excl_def uniq_def busy_ok_def alloc_ok_def by blast
    show "isProcessing (heap w' (t_session (tasks w' ! i)))"
      using b c d by (simp add: h n)
    show "waitingForAudioComplete (heap w' (t_session (tasks w' ! i))) \<noteq> Some True"
      using b c d by (simp add: h n)
    show "t_session (tasks w' ! i) < nextSession w'"
      using b c d by (simp add: h n)
  next
    fix sid a
    assume "sessions w' sid = Some a"
    then show "a < nextSession w'" using e ss n by (simp add: excl_def uniq_def busy_ok_def alloc_ok_def)
  qed
qed

lemma excl_stays:
  assumes e: "excl w" and r: "stays tid w w'"
    and tl: "tid < length (tasks w)" and lt: "live (tasks w ! tid)"
  shows "excl w'"
proof -
  from r obtain p where p: "p \<noteq> Returned"
    and t: "tasks w' = (tasks w)[tid := (tasks w ! tid)\<lparr>t_phase := p\<rparr>]"
    and h: "heap w' = heap w"
    and ss: "sessions w' = sessions w" and n: "nextSession w' = nextSession w"
    by (auto simp: stays_def)
  have len: "length (tasks w') = length (tasks w)" by (simp add: t)
  have lv: "\<And>i. i < length (tasks w) \<Longrightarrow>
      live (tasks w' ! i) = live (tasks w ! i)
      \<and> t_session (tasks w' ! i) = t_session (tasks w ! i)"
  proof -
    fix i
    assume "i < length (tasks w)"
    then show "live (tasks w' ! i) = live (tasks w ! i)
      \<and> t_session (tasks w' ! i) = t_session (tasks w ! i)"
      using p lt by (cases "i = tid") (auto simp: t live_def)
  qed
  show ?thesis
    using e unfolding excl_def uniq_def busy_ok_def alloc_ok_def len h ss n
    by (metis lv)
qed

lemma core_frame [simp]:
  "same_core w (emit cb e w)"
  "same_core w (logMsg l m w)"
  "same_core w (pushMessage sid msg w)"
  "same_core w (addUserMessage sid body w)"
  "same_core w (addAssistantMessage sid body ag w)"
  "same_core w (updConn c f w)"
  "same_core w (initializeSession sid x y z w)"
  "same_core w (clearSession sid w)"
  "same_core w (w\<lparr>conns := cs\<rparr>)"
  "same_core w (w\<lparr>timers := tm\<rparr>)"
  "same_core w (w\<lparr>creating := cr\<rparr>)"
  "same_core w (w\<lparr>sent := sn\<rparr>)"
  by (simp_all add: same_core_def emit_def logMsg_def pushMessage_def addUserMessage_def
      addAssistantMessage_def updConn_def initializeSession_def clearSession_def
      split: option.splits)

lemma same_core_trans: "same_core w w1 \<Longrightarrow> same_core w1 w2 \<Longrightarrow> same_core w w2"
  by (simp add: same_core_def)

lemma returns_core: "same_core w w1 \<Longrightarrow> returns tid w1 w' \<Longrightarrow> returns tid w w'"
  by (simp add: same_core_def returns_def)

lemma stays_core: "same_core w w1 \<Longrightarrow> stays tid w1 w' \<Longrightarrow> stays tid w w'"
  by (simp add: same_core_def stays_def)

lemma returns_finishTurn: "returns tid w (finishTurn tid ag d full w)"
  by (auto simp: returns_def finishTurn_def Let_def setPhase_def updSession_def emit_def)

lemma shape_afterText:
  "returns tid w (afterText tid ag d full w) \<or> stays tid w (afterText tid ag d full w)"
proof (cases "streamTextToSpeech_start (Some full) (deepgram w)")
  case TtsSkipped
  have "same_core w (emit (onStreamChunk (heap w (t_session (tasks w ! tid)))) (AiAudioEnd (speaker d))
          (addAssistantMessage (t_sessionId (tasks w ! tid)) full (speaker d) w))"
    by (rule same_core_trans [OF core_frame(5) core_frame(1)])
  then have "returns tid w (afterText tid ag d full w)"
    using TtsSkipped returns_core [OF _ returns_finishTurn]
    by (simp add: afterText_def Let_def)
  then show ?thesis by simp
next
  case TtsThrew
  have "same_core w (logMsg LError (''Error in TTS for agent '' @ speaker d @ '':'')
          (logMsg LError ''Error in streamTextToSpeech:''
            (addAssistantMessage (t_sessionId (tasks w ! tid)) full (speaker d) w)))"
    by (rule same_core_trans [OF core_frame(5) same_core_trans [OF core_frame(2) core_frame(2)]])
  then have "returns tid w (afterText tid ag d full w)"
    using TtsThrew returns_core [OF _ returns_finishTurn]
    by (simp add: afterText_def Let_def)
  then show ?thesis by simp
next
  case TtsConnecting
  then have "stays tid w (afterText tid ag d full w)"
    by (auto simp: afterText_def Let_def stays_def setPhase_def addAssistantMessage_def
        pushMessage_def split: option.splits)
  then show ?thesis by simp
qed

lemma returns_idle:
  "same_core w w1 \<Longrightarrow>
   returns tid w (setPhase tid Returned
      (emit cb e (updSession (t_session (tasks w ! tid)) g w1)))"
  "same_core w w1 \<Longrightarrow>
   returns tid w (setPhase tid Returned (updSession (t_session (tasks w ! tid)) g w1))"
  by (auto simp: same_core_def returns_def setPhase_def emit_def updSession_def)

lemma shape_afterDecision:
  "returns tid w (afterDecision tid d w) \<or> stays tid w (afterDecision tid d w)"
proof (cases "speaker d = ''user''")
  case True
  then show ?thesis
    by (simp add: afterDecision_def Let_def returns_idle(1) [where ?w1.0 = w] same_core_def)
next
  case False
  show ?thesis
  proof (cases "find (\<lambda>x. a_id x = speaker d) (agents (heap w (t_session (tasks w ! tid))))")
    case None
    then show ?thesis
      using False returns_idle(2) [of w "logMsg LError (''Agent '' @ speaker d @ '' not found'') w" tid]
      by (simp add: afterDecision_def Let_def)
  next
    case (Some ag)
    define s where "s = heap w (t_session (tasks w ! tid))"
    define w1 where "w1 = emit (onStreamChunk s)
                         (AiResponseStart (speaker d) (personalityOf ag) (gender ag))
                         (emit (onStreamChunk s) (AiThinking ''AI is thinking...'') w)"
    have c1: "same_core w w1"
      unfolding w1_def by (rule same_core_trans [OF core_frame(1) core_frame(1)])
    have st: "stays tid w (setPhase tid (AwaitStream ag d [] []) w1)"
      using c1 by (auto simp: stays_def same_core_def setPhase_def)
    have tx: "\<And>body. returns tid w (afterText tid ag d body
                  (emit (onStreamChunk s) (AiResponseChunk (speaker d) body) w1))
             \<or> stays tid w (afterText tid ag d body
                  (emit (onStreamChunk s) (AiResponseChunk (speaker d) body) w1))"
    proof -
      fix body
      have c2: "same_core w (emit (onStreamChunk s) (AiResponseChunk (speaker d) body) w1)"
        by (rule same_core_trans [OF c1 core_frame(1)])
      show "returns tid w (afterText tid ag d body
                  (emit (onStreamChunk s) (AiResponseChunk (speaker d) body) w1))
             \<or> stays tid w (afterText tid ag d body
                  (emit (onStreamChunk s) (AiResponseChunk (speaker d) body) w1))"
        using shape_afterText [of tid "emit (onStreamChunk s) (AiResponseChunk (speaker d) body) w1" ag d body]
          returns_core [OF c2] stays_core [OF c2] by blast
    qed
    show ?thesis
      using False Some st tx
      by (simp add: afterDecision_def Let_def s_def [symmetric] w1_def [symmetric]
          split: option.splits)
  qed
qed

lemma excl_shape:
  "excl w \<Longrightarrow> tid < length (tasks w) \<Longrightarrow> live (tasks w ! tid) \<Longrightarrow>
   returns tid w w' \<or> stays tid w w' \<Longrightarrow> excl w'"
  using excl_returns excl_stays by blast

lemma excl_continueConversation: "excl w \<Longrightarrow> excl (continueConversation sid w)"
proof -
  assume e: "excl w"
  show ?thesis
  proof (cases "sessions w sid")
    case None
    then show ?thesis
      using e excl_same_core [OF core_frame(2)] by (simp add: continueConversation_def)
  next
    case (Some a)
    show ?thesis
    proof (cases "isProcessing (heap w a) \<or> waitingForAudioComplete (heap w a) = Some True")
      case True
      then show ?thesis
        using e Some excl_same_core [OF core_frame(2)]
        by (auto simp: continueConversation_def)
    next
      case False
      have none: "\<And>i. i < length (tasks w) \<Longrightarrow> live (tasks w ! i) \<Longrightarrow>
          t_session (tasks w ! i) \<noteq> a"
        using e False unfolding excl_def uniq_def busy_ok_def alloc_ok_def by blast
      have al: "a < nextSession w" using e Some unfolding excl_def uniq_def busy_ok_def alloc_ok_def by blast
      define t where "t = \<lparr>t_sessionId = sid, t_session = a,
                            t_phase = AwaitDecision (memories w sid)\<rparr>"
      define w' where "w' = continueConversation sid w"
      have tk: "tasks w' = tasks w @ [t]"
        and hp: "heap w' = (heap w)(a := (heap w a)\<lparr>isProcessing := True\<rparr>)"
        and ss: "sessions w' = sessions w" and nx: "nextSession w' = nextSession w"
        using Some False
        by (simp_all add: w'_def t_def continueConversation_def Let_def updSession_def)
      have nth: "\<And>i. i < length (tasks w') \<Longrightarrow>
          (i < length (tasks w) \<and> tasks w' ! i = tasks w ! i)
          \<or> (i = length (tasks w) \<and> tasks w' ! i = t)"
        by (auto simp: tk nth_append)
      have "excl w'"
        unfolding excl_def uniq_def busy_ok_def alloc_ok_def
      proof (intro conjI allI impI)
        fix i j
        assume a: "i < length (tasks w') \<and> j < length (tasks w') \<and> live (tasks w' ! i)
          \<and> live (tasks w' ! j) \<and> t_session (tasks w' ! i) = t_session (tasks w' ! j)"
        show "i = j"
          using nth [of i] nth [of j] a none e unfolding excl_def uniq_def busy_ok_def alloc_ok_def t_def
          by (metis task.select_convs(2))
      next
        fix i
        assume a: "i < length (tasks w') \<and> live (tasks w' ! i)"
        have old: "i < length (tasks w) \<Longrightarrow>
            isProcessing (heap w (t_session (tasks w ! i)))
            \<and> waitingForAudioComplete (heap w (t_session (tasks w ! i))) \<noteq> Some True
            \<and> t_session (tasks w ! i) < nextSession w \<and> t_session (tasks w ! i) \<noteq> a"
          using a nth [of i] none e unfolding excl_def uniq_def busy_ok_def alloc_ok_def by auto
        show "isProcessing (heap w' (t_session (tasks w' ! i)))"
          using nth [of i] a old by (auto simp: hp t_def)
        show "waitingForAudioComplete (heap w' (t_session (tasks w' ! i))) \<noteq> Some True"
          using nth [of i] a old False by (auto simp: hp t_def)
        show "t_session (tasks w' ! i) < nextSession w'"
          using nth [of i] a old al by (auto simp: nx t_def)
      next
        fix s b
        assume "sessions w' s = Some b"
        then show "b < nextSession w'" using e ss nx by (simp add: excl_def uniq_def busy_ok_def alloc_ok_def)
      qed
      then show ?thesis by (simp add: w'_def)
    qed
  qed
qed

lemma uniq_tasks: "tasks w' = tasks w \<Longrightarrow> uniq w' = uniq w"
  by (simp add: uniq_def)

lemma alloc_frame: "sessions w' = sessions w \<Longrightarrow> nextSession w' = nextSession w \<Longrightarrow>
    alloc_ok w' = alloc_ok w"
  by (simp add: alloc_ok_def)

lemma busy_elsewhere:
  assumes b: "busy_ok w" and t: "tasks w' = tasks w" and n: "nextSession w \<le> nextSession w'"
    and h: "\<And>i. i < length (tasks w) \<Longrightarrow> live (tasks w ! i) \<Longrightarrow>
              heap w' (t_session (tasks w ! i)) = heap w (t_session (tasks w ! i))"
  shows "busy_ok w'"
  unfolding busy_ok_def
proof (intro allI impI)
  fix i
  assume a: "i < length (tasks w') \<and> live (tasks w' ! i)"
  then have i: "i < length (tasks w)" and l: "live (tasks w ! i)" by (simp_all add: t)
  from b i l have o: "isProcessing (heap w (t_session (tasks w ! i)))
          \<and> waitingForAudioComplete (heap w (t_session (tasks w ! i))) \<noteq> Some True
          \<and> t_session (tasks w ! i) < nextSession w"
    unfolding busy_ok_def by blast
  show "isProcessing (heap w' (t_session (tasks w' ! i)))
          \<and> waitingForAudioComplete (heap w' (t_session (tasks w' ! i))) \<noteq> Some True
          \<and> t_session (tasks w' ! i) < nextSession w'"
    using o n h [OF i l] by (simp add: t)
qed

lemma excl_createSession_resume: "excl w \<Longrightarrow> excl (createSession_resume k res w)"
proof -
  assume e: "excl w"
  define failure where "failure = (case res of Inl msg \<Rightarrow> Some msg
      | Inr ags \<Rightarrow> if length ags = 0 then Some ''Failed to generate agents'' else None)"
  define w' where "w' = createSession_resume k res w"
  show "excl (createSession_resume k res w)"
  proof (cases "k < length (creating w) \<and> \<not> p_done (creating w ! k)")
    case False
    then show ?thesis using e by (auto simp: createSession_resume_def)
  next
    case True
    show ?thesis
    proof (cases failure)
      case (Some msg)
      have "same_core w w'"
        using True Some
        by (simp add: w'_def createSession_resume_def Let_def failure_def [symmetric]
            same_core_def emit_def logMsg_def)
      then show ?thesis using e excl_same_core by (simp add: w'_def)
    next
      case None
      have t: "tasks w' = tasks w" and n: "nextSession w' = Suc (nextSession w)"
        and h: "\<And>a. a \<noteq> nextSession w \<Longrightarrow> heap w' a = heap w a"
        and s: "\<And>sid a. sessions w' sid = Some a \<Longrightarrow>
                  a = nextSession w \<or> sessions w sid = Some a"
        using True None
        by (auto simp: w'_def createSession_resume_def Let_def failure_def [symmetric]
            split: if_splits)
      have u: "uniq w'" using e uniq_tasks [OF t] by (simp add: excl_def)
      have b: "busy_ok w'"
      proof (rule busy_elsewhere [OF _ t])
        show "busy_ok w" using e by (simp add: excl_def)
        show "nextSession w \<le> nextSession w'" by (simp add: n)
        fix i assume "i < length (tasks w)" and "live (tasks w ! i)"
        then have "t_session (tasks w ! i) < nextSession w"
          using e unfolding excl_def busy_ok_def by blast
        then show "heap w' (t_session (tasks w ! i)) = heap w (t_session (tasks w ! i))"
          by (intro h) simp
      qed
      have a: "alloc_ok w'"
        unfolding alloc_ok_def
      proof (intro allI impI)
        fix sid a assume "sessions w' sid = Some a"
        then have "a = nextSession w \<or> sessions w sid = Some a" by (rule s)
        then have "a \<le> nextSession w"
          using e unfolding excl_def alloc_ok_def by (auto simp: less_imp_le)
        then show "a < nextSession w'" by (simp add: n)
      qed
      show ?thesis using u b a by (simp add: excl_def w'_def)
    qed
  qed
qed

lemma excl_onAudioPlaybackComplete: "excl w \<Longrightarrow> excl (onAudioPlaybackComplete sid v w)"
proof -
  assume e: "excl w"
  show ?thesis
  proof (cases "sessions w sid")
    case None
    then show ?thesis
      using e excl_same_core [OF core_frame(2)] by (simp add: onAudioPlaybackComplete_def)
  next
    case (Some a)
    show ?thesis
    proof (cases "waitingForAudioComplete (heap w a) = Some True
                  \<and> currentSpeakingAgentId (heap w a) = v")
      case False
      then show ?thesis
        using e Some excl_same_core [OF core_frame(2)]
        by (auto simp: onAudioPlaybackComplete_def)
    next
      case True
      define w' where "w' = onAudioPlaybackComplete sid v w"
      have t: "tasks w' = tasks w" and n: "nextSession w' = nextSession w"
        and s: "sessions w' = sessions w"
        and h: "\<And>b. b \<noteq> a \<Longrightarrow> heap w' b = heap w b"
        using True Some
        by (simp_all add: w'_def onAudioPlaybackComplete_def Let_def updSession_def)
      have b: "busy_ok w'"
      proof (rule busy_elsewhere [OF _ t])
        show "busy_ok w" using e by (simp add: excl_def)
        show "nextSession w \<le> nextSession w'" by (simp add: n)
        fix i assume "i < length (tasks w)" and "live (tasks w ! i)"
        then have "waitingForAudioComplete (heap w (t_session (tasks w ! i))) \<noteq> Some True"
          using e unfolding excl_def busy_ok_def by blast
        then have "t_session (tasks w ! i) \<noteq> a" using True by auto
        then show "heap w' (t_session (tasks w ! i)) = heap w (t_session (tasks w ! i))"
          by (rule h)
      qed
      show ?thesis
        using e b uniq_tasks [OF t] alloc_frame [OF s n] by (simp add: excl_def w'_def)
    qed
  qed
qed

lemma excl_deleteSession: "excl w \<Longrightarrow> excl (deleteSession sid w)"
proof -
  assume e: "excl w"
  define w' where "w' = deleteSession sid w"
  have t: "tasks w' = tasks w" and n: "nextSession w' = nextSession w"
    and h: "heap w' = heap w"
    and s: "\<And>x a. sessions w' x = Some a \<Longrightarrow> sessions w x = Some a"
    by (auto simp: w'_def deleteSession_def clearSession_def split: if_splits)
  have b: "busy_ok w'"
    by (rule busy_elsewhere [OF _ t]) (use e in \<open>simp_all add: excl_def n h\<close>)
  have a: "alloc_ok w'"
    using e s unfolding excl_def alloc_ok_def n by blast
  show ?thesis using e b a uniq_tasks [OF t] by (simp add: excl_def w'_def)
qed

lemma core_createSession_start:
  "same_core w (createSession_start sid scen uname urole cb1 cb2 cb3 w)"
  by (simp add: createSession_start_def Let_def same_core_def initializeSession_def)

lemma core_tts_audio: "same_core w (tts_audio c b w)"
  by (simp add: tts_audio_def Let_def same_core_def updConn_def split: prod.splits)

lemma core_tts_complete: "same_core w (tts_complete timedOut c w)"
  by (simp add: tts_complete_def Let_def same_core_def updConn_def emit_def logMsg_def)

lemma core_tts_error: "same_core w (tts_error c w)"
  by (simp add: tts_error_def same_core_def logMsg_def)

lemma excl_timer_fires: "excl w \<Longrightarrow> excl (timer_fires w)"
proof (cases "timers w")
  case Nil
  then show "excl w \<Longrightarrow> excl (timer_fires w)" by (simp add: timer_fires_def)
next
  case (Cons sid rest)
  assume "excl w"
  then have "excl (w\<lparr>timers := rest\<rparr>)" by (rule excl_same_core [OF core_frame(10)])
  then show "excl (timer_fires w)"
    using Cons by (simp add: timer_fires_def excl_continueConversation)
qed

lemma excl_processUserMessage: "excl w \<Longrightarrow> excl (processUserMessage sid body w)"
proof (cases "sessions w sid")
  case None
  assume "excl w"
  then show "excl (processUserMessage sid body w)"
    using None excl_same_core [OF core_frame(2)] by (simp add: processUserMessage_def)
next
  case (Some a)
  assume "excl w"
  then have "excl (addUserMessage sid body
      (emit (onStreamChunk (heap w a)) (AiThinking ''Processing your response...'') w))"
    by (rule excl_same_core [OF same_core_trans [OF core_frame(1) core_frame(4)]])
  then show "excl (processUserMessage sid body w)"
    using Some by (simp add: processUserMessage_def excl_continueConversation)
qed

lemma excl_decision_resume: "excl w \<Longrightarrow> excl (decision_resume tid r w)"
proof (cases "tid < length (tasks w)")
  case False
  then show "excl w \<Longrightarrow> excl (decision_resume tid r w)" by (simp add: decision_resume_def)
next
  case True
  assume e: "excl w"
  show "excl (decision_resume tid r w)"
  proof (cases "t_phase (tasks w ! tid)")
    case (AwaitDecision h)
    then have l: "live (tasks w ! tid)" by (simp add: live_def)
    show ?thesis
      using True AwaitDecision excl_shape [OF e True l shape_afterDecision]
      by (simp add: decision_resume_def Let_def)
  qed (use e True in \<open>simp_all add: decision_resume_def Let_def\<close>)
qed

lemma excl_stream_chunk: "excl w \<Longrightarrow> excl (stream_chunk tid c w)"
proof (cases "tid < length (tasks w)")
  case False
  then show "excl w \<Longrightarrow> excl (stream_chunk tid c w)" by (simp add: stream_chunk_def)
next
  case True
  assume e: "excl w"
  show "excl (stream_chunk tid c w)"
  proof (cases "t_phase (tasks w ! tid)")
    case (AwaitStream ag d full svc)
    then have l: "live (tasks w ! tid)" by (simp add: live_def)
    have "stays tid w (setPhase tid (AwaitStream ag d (full @ c) (svc @ c))
          (emit (onStreamChunk (heap w (t_session (tasks w ! tid)))) (AiResponseChunk (speaker d) c) w))"
      by (auto simp: stays_def setPhase_def emit_def)
    then show ?thesis
      using True AwaitStream e excl_stays [OF e _ True l]
      by (simp add: stream_chunk_def Let_def)
  qed (use e True in \<open>simp_all add: stream_chunk_def Let_def\<close>)
qed

lemma excl_stream_complete: "excl w \<Longrightarrow> excl (stream_complete tid w)"
proof (cases "tid < length (tasks w)")
  case False
  then show "excl w \<Longrightarrow> excl (stream_complete tid w)" by (simp add: stream_complete_def)
next
  case True
  assume e: "excl w"
  show "excl (stream_complete tid w)"
  proof (cases "t_phase (tasks w ! tid)")
    case (AwaitStream ag d full svc)
    then have l: "live (tasks w ! tid)" by (simp add: live_def)
    show ?thesis
      using True AwaitStream excl_shape [OF e True l shape_afterText]
      by (simp add: stream_complete_def)
  qed (use e True in \<open>simp_all add: stream_complete_def\<close>)
qed

lemma excl_tts_open: "excl w \<Longrightarrow> excl (tts_open tid w)"
proof (cases "tid < length (tasks w)")
  case False
  then show "excl w \<Longrightarrow> excl (tts_open tid w)" by (simp add: tts_open_def)
next
  case True
  assume e: "excl w"
  show "excl (tts_open tid w)"
  proof (cases "t_phase (tasks w ! tid)")
    case (AwaitTts ag d full c)
    then have l: "live (tasks w ! tid)" by (simp add: live_def)
    have "returns tid w (finishTurn tid ag d full (updConn c (\<lambda>x. x\<lparr>c_open := True\<rparr>) w))"
      by (rule returns_core [OF core_frame(6) returns_finishTurn])
    then show ?thesis
      using True AwaitTts excl_returns [OF e _ True l] by (simp add: tts_open_def)
  qed (use e True in \<open>simp_all add: tts_open_def\<close>)
qed

lemma excl_tts_open_fail: "excl w \<Longrightarrow> excl (tts_open_fail tid w)"
proof (cases "tid < length (tasks w)")
  case False
  then show "excl w \<Longrightarrow> excl (tts_open_fail tid w)" by (simp add: tts_open_fail_def)
next
  case True
  assume e: "excl w"
  show "excl (tts_open_fail tid w)"
  proof (cases "t_phase (tasks w ! tid)")
    case (AwaitTts ag d full c)
    then have l: "live (tasks w ! tid)" by (simp add: live_def)
    have "returns tid w (finishTurn tid ag d full
            (logMsg LError (''Error in TTS for agent '' @ speaker d @ '':'')
               (logMsg LError ''Error in streamTextToSpeech:'' w)))"
      by (rule returns_core [OF same_core_trans [OF core_frame(2) core_frame(2)]
            returns_finishTurn])
    then show ?thesis
      using True AwaitTts excl_returns [OF e _ True l] by (simp add: tts_open_fail_def)
  qed (use e True in \<open>simp_all add: tts_open_fail_def\<close>)
qed

lemma excl_task_throws: "excl w \<Longrightarrow> excl (task_throws tid msg w)"
proof (cases "tid < length (tasks w) \<and> t_phase (tasks w ! tid) \<noteq> Returned")
  case False
  then show "excl w \<Longrightarrow> excl (task_throws tid msg w)" by (auto simp: task_throws_def)
next
  case True
  assume e: "excl w"
  have l: "live (tasks w ! tid)" using True by (simp add: live_def)
  have "returns tid w (setPhase tid Returned
          (emit (onError (heap w (t_session (tasks w ! tid))))
             (ErrorEvent None (orDefault msg ''Failed to continue conversation''))
             (updSession (t_session (tasks w ! tid)) (\<lambda>s. s\<lparr>isProcessing := False\<rparr>)
                (logMsg LError ''Error in continueConversation:'' w))))"
    by (rule returns_idle(1) [OF core_frame(2)])
  then show "excl (task_throws tid msg w)"
    using True excl_returns [OF e _ _ l] by (simp add: task_throws_def Let_def)
qed

lemma excl_step: "noStreamError x \<Longrightarrow> excl w \<Longrightarrow> excl (step x w)"
proof (cases x)
  case (CreateSession sid scen uname urole cb1 cb2 cb3)
  then show "excl w \<Longrightarrow> excl (step x w)"
    using excl_same_core [OF core_createSession_start] by simp
next
  case (AgentsGenerated k res)
  then show "excl w \<Longrightarrow> excl (step x w)" by (simp add: excl_createSession_resume)
next
  case TimerFires
  then show "excl w \<Longrightarrow> excl (step x w)" by (simp add: excl_timer_fires)
next
  case (UserMessage sid body)
  then show "excl w \<Longrightarrow> excl (step x w)" by (simp add: excl_processUserMessage)
next
  case (AudioPlaybackComplete sid v)
  then show "excl w \<Longrightarrow> excl (step x w)" by (simp add: excl_onAudioPlaybackComplete)
next
  case (DeleteSession sid)
  then show "excl w \<Longrightarrow> excl (step x w)" by (simp add: excl_deleteSession)
next
  case (DecisionText tid r)
  then show "excl w \<Longrightarrow> excl (step x w)" by (simp add: excl_decision_resume)
next
  case (StreamChunk tid c)
  then show "excl w \<Longrightarrow> excl (step x w)" by (simp add: excl_stream_chunk)
next
  case (StreamComplete tid)
  then show "excl w \<Longrightarrow> excl (step x w)" by (simp add: excl_stream_complete)
next
  case (StreamError tid msg)
  then show "noStreamError x \<Longrightarrow> excl (step x w)" by simp
next
  case (TtsOpen tid)
  then show "excl w \<Longrightarrow> excl (step x w)" by (simp add: excl_tts_open)
next
  case (TtsOpenFail tid)
  then show "excl w \<Longrightarrow> excl (step x w)" by (simp add: excl_tts_open_fail)
next
  case (TtsAudio c b)
  then show "excl w \<Longrightarrow> excl (step x w)" using excl_same_core [OF core_tts_audio] by simp
next
  case (TtsFlushed c)
  then show "excl w \<Longrightarrow> excl (step x w)" using excl_same_core [OF core_tts_complete] by simp
next
  case (TtsTimeout c)
  then show "excl w \<Longrightarrow> excl (step x w)" using excl_same_core [OF core_tts_complete] by simp
next
  case (TtsError c)
  then show "excl w \<Longrightarrow> excl (step x w)" using excl_same_core [OF core_tts_error] by simp
next
  case (TaskThrows tid msg)
  then show "excl w \<Longrightarrow> excl (step x w)" by (simp add: excl_task_throws)
qed

lemma excl_run: "list_all noStreamError xs \<Longrightarrow> excl w \<Longrightarrow> excl (run xs w)"
  by (induction xs arbitrary: w) (simp_all add: excl_step)

lemma excl_init: "excl (init_world dg)"
  by (simp add: excl_def uniq_def busy_ok_def alloc_ok_def init_world_def)

lemma at_most_one:
  "(\<forall>i j. i < length xs \<and> j < length xs \<and> P (xs ! i) \<and> P (xs ! j) \<longrightarrow> i = j) \<Longrightarrow>
   length (filter P xs) \<le> 1"
proof (induction xs)
  case Nil
  show ?case by simp
next
  case (Cons x xs)
  have tl: "\<forall>i j. i < length xs \<and> j < length xs \<and> P (xs ! i) \<and> P (xs ! j) \<longrightarrow> i = j"
  proof (intro allI impI)
    fix i j
    assume "i < length xs \<and> j < length xs \<and> P (xs ! i) \<and> P (xs ! j)"
    then have "Suc i < length (x # xs) \<and> Suc j < length (x # xs)
        \<and> P ((x # xs) ! Suc i) \<and> P ((x # xs) ! Suc j)" by simp
    with Cons.prems have "Suc i = Suc j" by blast
    then show "i = j" by simp
  qed
  show ?case
  proof (cases "P x")
    case False
    then show ?thesis using Cons.IH [OF tl] by simp
  next
    case True
    have "filter P xs = []"
    proof (rule ccontr)
      assume "filter P xs \<noteq> []"
      then obtain y where "y \<in> set xs" and "P y" by (auto simp: filter_empty_conv)
      then obtain k where k: "k < length xs" and "xs ! k = y" by (auto simp: in_set_conv_nth)
      with \<open>P y\<close> have "Suc k < length (x # xs) \<and> 0 < length (x # xs)
          \<and> P ((x # xs) ! Suc k) \<and> P ((x # xs) ! 0)" using True by simp
      with Cons.prems have "Suc k = 0" by blast
      then show False by simp
    qed
    then show ?thesis using True by simp
  qed
qed

text \<open>
  On every run from start-up in which no stream fails, at most one call of
  \<open>continueConversation\<close> is in flight on any session object, at every moment.
\<close>

theorem one_turn_in_flight_without_stream_error:
  "list_all noStreamError xs \<longrightarrow> in_flight a (run xs (init_world dg)) \<le> 1"
proof
  assume "list_all noStreamError xs"
  then have e: "excl (run xs (init_world dg))" by (rule excl_run [OF _ excl_init])
  then have u: "\<forall>i j. i < length (tasks (run xs (init_world dg)))
      \<and> j < length (tasks (run xs (init_world dg)))
      \<and> (t_session (tasks (run xs (init_world dg)) ! i) = a
           \<and> t_phase (tasks (run xs (init_world dg)) ! i) \<noteq> Returned)
      \<and> (t_session (tasks (run xs (init_world dg)) ! j) = a
           \<and> t_phase (tasks (run xs (init_world dg)) ! j) \<noteq> Returned) \<longrightarrow> i = j"
    unfolding excl_def uniq_def live_def by blast
  show "in_flight a (run xs (init_world dg)) \<le> 1"
    unfolding in_flight_def by (rule at_most_one [OF u])
qed

theorem one_turn_in_flight_without_stream_error_witness:
  "list_all noStreamError userInterrupts
   \<and> in_flight 0 (run userInterrupts (init_world True)) \<le> 1
   \<and> in_flight 0 (run userInterrupts (init_world True)) = 1"
proof -
  have h: "list_all noStreamError userInterrupts"
    by (simp add: userInterrupts_def started_def)
  have e: "in_flight 0 (run userInterrupts (init_world True)) = 1" by code_simp
  show ?thesis
    using h e one_turn_in_flight_without_stream_error [of userInterrupts 0 True] by simp
qed

end
